theory Spec2Isabelle
  imports Complex_Main
begin

section \<open>The layer scene graph of skeditor (src/lib/editor/view/layer-view.ts)\<close>

text \<open>
  A shallow embedding of \<^verbatim>\<open>SkyBaseLayerView\<close>.

  Numbers. A JavaScript number is modelled as a \<^typ>\<open>real\<close>: the embedding follows which
  formula the code evaluates on which branch, with exact arithmetic. Rounding of IEEE
  doubles is not modelled, and a division by zero, which yields an infinity or NaN in
  JavaScript, is \<open>0\<close> in HOL; the theorems below say which expression the code evaluates,
  and no example divides by zero.

  Objects. A view is a tree node: its own fields are a record, its children a list.
  The back-reference \<^verbatim>\<open>this.parent\<close> is passed to the functions that read it, as an
  optional node (\<open>None\<close> for \<^verbatim>\<open>undefined\<close>). A method that mutates \<^verbatim>\<open>this\<close> returns the
  updated node.
\<close>

subsection \<open>Geometry (../base)\<close>

record point =
  pt_x :: real
  pt_y :: real

record rect =
  rect_x :: real
  rect_y :: real
  rect_width :: real
  rect_height :: real

text \<open>
  The \<^verbatim>\<open>Transform\<close> object of a view. Its matrices are kept abstract (\<open>'m\<close>): the matrix
  class is not part of this file.
\<close>

record 'm transform =
  pivot :: point
  position :: point
  scale :: point
  rotation :: real
  localTransform :: 'm
  worldTransform :: 'm

subsection \<open>The document model records read by the view (../model)\<close>

datatype blend_mode = Src | Blend nat

datatype blur_type = Gaussian | Motion | Zoom | Background

record context_settings =
  opacity :: real
  blendMode :: blend_mode

record shadow =
  shadow_isEnabled :: bool
  shadow_color :: nat
  blurRadius :: real
  offsetX :: real
  offsetY :: real

record blur =
  blur_isEnabled :: bool
  blur_type :: blur_type
  radius :: real
  motionAngle :: real

record style =
  contextSettings :: "context_settings option"
  shadows :: "shadow list option"
  style_blur :: "blur option"

record layer =
  objectId :: string
  model_frame :: rect
  isVisible :: bool
  isLocked :: bool
  hasClippingMask :: bool
  model_shouldBreakMaskChain :: bool
  isFlippedHorizontal :: bool
  isFlippedVertical :: bool
  model_rotation :: real
  fixedWidth :: bool
  fixedHeight :: bool
  snapLeft :: bool
  snapRight :: bool
  snapTop :: bool
  snapBottom :: bool
  model_style :: "style option"

subsection \<open>Paints\<close>

datatype image_filter =
  DropShadow real real real real nat
  | MakeBlur real real

record paint =
  alphaf :: "real option"
  paint_blendMode :: "blend_mode option"
  imageFilter :: "image_filter option"

text \<open>
  \<^verbatim>\<open>layerPaint: SkPaint | null | undefined\<close>: \<^verbatim>\<open>undefined\<close> is not yet built,
  \<^verbatim>\<open>null\<close> is not needed.
\<close>

datatype layer_paint = Undefined | Null | Paint paint

subsection \<open>The view node\<close>

record 'm node =
  model :: layer
  scaledFrame :: "rect option"
  transform :: "'m transform"
  layerPaint :: layer_paint
  requireLayerDropShadow :: bool
  canQuickReject :: bool

datatype 'm view = View (self: "'m node") (children: "'m view list")

definition visible :: "'m node \<Rightarrow> bool" where
  "visible this = isVisible (model this)"

definition interactive :: "'m node \<Rightarrow> bool" where
  "interactive this = (visible this \<and> \<not> isLocked (model this))"

definition isMask :: "'m node \<Rightarrow> bool" where
  "isMask this = hasClippingMask (model this)"

definition shouldBreakMaskChain :: "'m node \<Rightarrow> bool" where
  "shouldBreakMaskChain this = model_shouldBreakMaskChain (model this)"

definition intrinsicFrame :: "'m node \<Rightarrow> rect" where
  "intrinsicFrame this = model_frame (model this)"

text \<open>\<^verbatim>\<open>this.scaledFrame || this.model.frame\<close>: a \<^verbatim>\<open>Rect\<close> object is always truthy.\<close>

definition frame :: "'m node \<Rightarrow> rect" where
  "frame this = (case scaledFrame this of Some f \<Rightarrow> f | None \<Rightarrow> model_frame (model this))"

definition isFrameScaled :: "'m node \<Rightarrow> bool" where
  "isFrameScaled this =
     (rect_width (intrinsicFrame this) \<noteq> rect_width (frame this)
      \<or> rect_height (intrinsicFrame this) \<noteq> rect_height (frame this))"

subsection \<open>Instance scaling\<close>

record scale_info =
  scaleX :: real
  scaleY :: real

record offset_info =
  newX :: real
  newY :: real

datatype error = TypeError

text \<open>
  \<^verbatim>\<open>calcInstanceChildScale\<close>. \<^verbatim>\<open>if (!parent?.isFrameScaled) return;\<close> returns
  \<^verbatim>\<open>undefined\<close> (\<open>None\<close>) when there is no parent or the parent is not scaled.
\<close>

definition calcInstanceChildScale :: "'m node option \<Rightarrow> 'm node \<Rightarrow> scale_info option" where
  "calcInstanceChildScale parent this =
     (case parent of
        None \<Rightarrow> None
      | Some p \<Rightarrow>
          if \<not> isFrameScaled p then None
          else
            let instanceFrame = frame p;
                masterFrame = intrinsicFrame p;
                instanceScaleX = rect_width instanceFrame / rect_width masterFrame;
                instanceScaleY = rect_height instanceFrame / rect_height masterFrame;
                scaleX0 = (if fixedWidth (model this) then 1 else instanceScaleX);
                scaleY0 = (if fixedHeight (model this) then 1 else instanceScaleY);
                curFrame = frame this;
                scaleX1 =
                  (if snapLeft (model this) \<and> snapRight (model this) then
                     let rightLefMargin = rect_width masterFrame - rect_width curFrame;
                         newWidth = rect_width instanceFrame - rightLefMargin
                     in newWidth / rect_width curFrame
                   else if snapRight (model this) then
                     let oldRight = rect_width masterFrame - rect_width curFrame - rect_x curFrame
                     in if \<not> fixedWidth (model this)
                        then (rect_width masterFrame * instanceScaleX - oldRight)
                               / (rect_width masterFrame - oldRight)
                        else scaleX0
                   else if snapLeft (model this) then
                     if \<not> fixedWidth (model this)
                     then (rect_width masterFrame * instanceScaleX - rect_x curFrame)
                            / (rect_width masterFrame - rect_x curFrame)
                     else scaleX0
                   else scaleX0);
                scaleY1 =
                  (if snapTop (model this) \<and> snapBottom (model this) then
                     let verMargin = rect_height masterFrame - rect_height curFrame;
                         newHeight = rect_height instanceFrame - verMargin
                     in newHeight / rect_height curFrame
                   else if snapBottom (model this) then
                     let oldBottom = rect_height masterFrame - rect_height curFrame - rect_y curFrame
                     in if \<not> fixedHeight (model this)
                        then (rect_height masterFrame * instanceScaleY - oldBottom)
                               / (rect_height masterFrame - oldBottom)
                        else scaleY0
                   else if snapTop (model this) then
                     if \<not> fixedHeight (model this)
                     then (rect_height masterFrame * instanceScaleY - rect_y curFrame)
                            / (rect_height masterFrame - rect_y curFrame)
                     else scaleY0
                   else scaleY0)
            in Some \<lparr>scaleX = scaleX1, scaleY = scaleY1\<rparr>)"

text \<open>
  \<^verbatim>\<open>calcOffsetAfterScale(newBounds, oldBounds)\<close>. \<^verbatim>\<open>const parent = this.parent!\<close> only
  asserts the type: without a parent, reading \<^verbatim>\<open>parent.frame\<close> throws a TypeError.
\<close>

definition calcOffsetAfterScale ::
  "'m node option \<Rightarrow> 'm node \<Rightarrow> rect \<Rightarrow> rect \<Rightarrow> error + offset_info" where
  "calcOffsetAfterScale parent this newBounds oldBounds =
     (case parent of
        None \<Rightarrow> Inl TypeError
      | Some p \<Rightarrow>
          let instanceFrame = frame p;
              masterFrame = intrinsicFrame p;
              curFrame = oldBounds;
              newX0 = rect_x curFrame;
              newY0 = rect_y curFrame;
              newX1 =
                (if snapLeft (model this) \<and> snapRight (model this) then newX0
                 else if snapRight (model this) then
                   let oldRight = rect_width masterFrame - rect_width curFrame - rect_x curFrame;
                       newLeft = rect_width instanceFrame - rect_width newBounds - oldRight
                   in newLeft
                 else if snapLeft (model this) then newX0
                 else
                   let oldCenter = rect_x curFrame + rect_width curFrame / 2;
                       oldCenterRatio = oldCenter / rect_width masterFrame;
                       newCenter = oldCenterRatio * rect_width instanceFrame;
                       newLeft = newCenter - rect_width newBounds / 2
                   in newLeft);
              newY1 =
                (if snapTop (model this) \<and> snapBottom (model this) then newY0
                 else if snapBottom (model this) then
                   let oldBottom = rect_height masterFrame - rect_height curFrame - rect_y curFrame;
                       newTop = rect_height instanceFrame - rect_height newBounds - oldBottom
                   in newTop
                 else if snapTop (model this) then newY0
                 else
                   let oldCenter = rect_y curFrame + rect_height curFrame / 2;
                       oldCenterRatio = oldCenter / rect_height masterFrame;
                       newCenter = oldCenterRatio * rect_height instanceFrame;
                       newTop = newCenter - rect_height newBounds / 2
                   in newTop)
          in Inr \<lparr>newX = newX1, newY = newY1\<rparr>)"

text \<open>
  \<^verbatim>\<open>commonLayoutSelf\<close>: clears \<^verbatim>\<open>scaledFrame\<close>, asks for the scale, and stores the scaled
  frame at the recomputed origin. The \<^verbatim>\<open>console.log\<close> is left out.
\<close>

definition commonLayoutSelf :: "'m node option \<Rightarrow> 'm node \<Rightarrow> error + 'm node" where
  "commonLayoutSelf parent this =
     (let this1 = this\<lparr>scaledFrame := None\<rparr>
      in case calcInstanceChildScale parent this1 of
           None \<Rightarrow> Inr this1
         | Some info \<Rightarrow>
             (let oldFrame = model_frame (model this1);
                 newFrame = \<lparr>rect_x = 0, rect_y = 0,
                             rect_width = scaleX info * rect_width oldFrame,
                             rect_height = scaleY info * rect_height oldFrame\<rparr>
              in (case calcOffsetAfterScale parent this1 newFrame oldFrame of
                    Inl e \<Rightarrow> Inl e
                  | Inr off \<Rightarrow>
                      Inr (this1\<lparr>scaledFrame :=
                             Some (newFrame\<lparr>rect_x := newX off, rect_y := newY off\<rparr>)\<rparr>))))"

subsection \<open>The local transform\<close>

text \<open>
  \<^verbatim>\<open>updateTransform\<close>. \<^verbatim>\<open>Transform.updateLocalTransform\<close> and \<^verbatim>\<open>degreeToRadian\<close> live in
  \<^verbatim>\<open>../base\<close> and are parameters here. Each \<^verbatim>\<open>set\<close> call and the assignment to
  \<^verbatim>\<open>rotation\<close> is one field update, in the order of the source.
\<close>

definition updateTransform ::
  "('m transform \<Rightarrow> 'm transform) \<Rightarrow> (real \<Rightarrow> real) \<Rightarrow> 'm node \<Rightarrow> 'm node" where
  "updateTransform updateLocalTransform degreeToRadian this =
     (let frame0 = frame this;
          t1 = (transform this)\<lparr>pivot := \<lparr>pt_x = rect_width frame0 / 2,
                                            pt_y = rect_height frame0 / 2\<rparr>\<rparr>;
          sX = (if isFlippedHorizontal (model this) then - 1 else 1);
          sY = (if isFlippedVertical (model this) then - 1 else 1);
          t2 = t1\<lparr>scale := \<lparr>pt_x = sX, pt_y = sY\<rparr>\<rparr>;
          radian = - 1 * sX * sY * degreeToRadian (model_rotation (model this));
          t3 = t2\<lparr>rotation := radian\<rparr>;
          t4 = t3\<lparr>position := \<lparr>pt_x = rect_x frame0 + rect_width frame0 / 2,
                                  pt_y = rect_y frame0 + rect_height frame0 / 2\<rparr>\<rparr>
      in this\<lparr>transform := updateLocalTransform t4\<rparr>)"

subsection \<open>The drawing surface\<close>

text \<open>
  The drawing backend is external. A surface is represented by the calls it has received,
  oldest first. \<open>ClipSelf\<close> and \<open>DrawSelf\<close> stand for the hooks \<^verbatim>\<open>_tryClip()\<close> and
  \<^verbatim>\<open>_render()\<close>, which subclasses outside this file implement; they carry the
  \<^verbatim>\<open>objectId\<close> of the view they are called on. \<open>ConcatInverse m\<close> is
  \<^verbatim>\<open>concat(Matrix.invert(m))\<close>.
\<close>

datatype 'm call =
  Save
  | SaveLayer paint
  | Restore
  | Concat 'm
  | ConcatInverse 'm
  | ClipSelf string
  | DrawSelf string

text \<open>
  What the calls mean for the save stack and the clip, after Skia: \<^verbatim>\<open>save\<close> and
  \<^verbatim>\<open>saveLayer\<close> push the current clip, \<^verbatim>\<open>restore\<close> pops it back (and does nothing on
  an empty stack), a clip narrows the current clip. The clip is the list of the masks that
  contributed to it. \<open>drawn\<close> records each draw with the clip it ran under, \<open>released\<close>
  each scope a \<^verbatim>\<open>restore\<close> closed. The matrix is not tracked. A draw hook that returns
  is taken to leave the save stack as it found it.
\<close>

datatype scope = SaveScope | LayerScope paint

record surface =
  clip :: "string list"
  stack :: "(scope \<times> string list) list"
  drawn :: "(string \<times> string list) list"
  released :: "scope list"

fun apply_call :: "'m call \<Rightarrow> surface \<Rightarrow> surface" where
  "apply_call Save s = s\<lparr>stack := (SaveScope, clip s) # stack s\<rparr>"
| "apply_call (SaveLayer p) s = s\<lparr>stack := (LayerScope p, clip s) # stack s\<rparr>"
| "apply_call Restore s =
     (case stack s of
        [] \<Rightarrow> s
      | (k, cl) # rest \<Rightarrow> s\<lparr>clip := cl, stack := rest, released := released s @ [k]\<rparr>)"
| "apply_call (Concat m) s = s"
| "apply_call (ConcatInverse m) s = s"
| "apply_call (ClipSelf i) s = s\<lparr>clip := clip s @ [i]\<rparr>"
| "apply_call (DrawSelf i) s = s\<lparr>drawn := drawn s @ [(i, clip s)]\<rparr>"

definition replay :: "'m call list \<Rightarrow> surface \<Rightarrow> surface" where
  "replay cs s = fold apply_call cs s"

definition opens :: "'m call list \<Rightarrow> nat" where
  "opens cs = length (filter (\<lambda>c. case c of Save \<Rightarrow> True | SaveLayer p \<Rightarrow> True | _ \<Rightarrow> False) cs)"

definition closes :: "'m call list \<Rightarrow> nat" where
  "closes cs = length (filter (\<lambda>c. c = Restore) cs)"

subsection \<open>Layer paint\<close>

definition emptyPaint :: paint where
  "emptyPaint = \<lparr>alphaf = None, paint_blendMode = None, imageFilter = None\<rparr>"

text \<open>\<^verbatim>\<open>style.shadows?.[0]\<close>: the first shadow, if the list is there and not empty.\<close>

definition firstShadow :: "style \<Rightarrow> shadow option" where
  "firstShadow st = (case shadows st of None \<Rightarrow> None | Some [] \<Rightarrow> None | Some (sh # _) \<Rightarrow> Some sh)"

text \<open>
  \<^verbatim>\<open>buildLayerPaint\<close>. The paint and the \<^verbatim>\<open>modified\<close> flag are threaded through the four
  steps of the source; the warnings for the unimplemented blur types are left out.
\<close>

definition buildLayerPaint :: "'m node \<Rightarrow> 'm node" where
  "buildLayerPaint this =
     (case model_style (model this) of
        None \<Rightarrow> this\<lparr>layerPaint := Null\<rparr>
      | Some st \<Rightarrow>
          (let pm0 = (emptyPaint, False);
               pm1 = (case contextSettings st of
                        None \<Rightarrow> pm0
                      | Some cs \<Rightarrow>
                          (let a = (if opacity cs \<noteq> 1
                                    then ((fst pm0)\<lparr>alphaf := Some (opacity cs)\<rparr>, True) else pm0)
                           in if blendMode cs \<noteq> Src
                              then ((fst a)\<lparr>paint_blendMode := Some (blendMode cs)\<rparr>, True) else a));
               pm2 = (case firstShadow st of
                        None \<Rightarrow> pm1
                      | Some sh \<Rightarrow>
                          if requireLayerDropShadow this \<and> shadow_isEnabled sh
                          then ((fst pm1)\<lparr>imageFilter :=
                                   Some (DropShadow (offsetX sh) (offsetY sh) (blurRadius sh / 2)
                                           (blurRadius sh / 2) (shadow_color sh))\<rparr>, True)
                          else pm1);
               pm3 = (case style_blur st of
                        None \<Rightarrow> pm2
                      | Some b \<Rightarrow>
                          if blur_isEnabled b then
                            (case blur_type b of
                               Gaussian \<Rightarrow>
                                 ((fst pm2)\<lparr>imageFilter := Some (MakeBlur (radius b) (radius b))\<rparr>, True)
                             | _ \<Rightarrow> pm2)
                          else pm2)
           in if snd pm3 then this\<lparr>layerPaint := Paint (fst pm3)\<rparr>
              else this\<lparr>layerPaint := Null\<rparr>))"

subsection \<open>Rendering\<close>

definition applyLayerStyle :: "'m node \<Rightarrow> 'm call list \<Rightarrow> 'm node \<times> 'm call list" where
  "applyLayerStyle this c =
     (let this1 = (if layerPaint this = Undefined then buildLayerPaint this else this)
      in case layerPaint this1 of
           Paint p \<Rightarrow> (this1, c @ [SaveLayer p])
         | _ \<Rightarrow> (this1, c))"

definition applyTransform :: "'m node \<Rightarrow> 'm call list \<Rightarrow> 'm call list" where
  "applyTransform this c = c @ [Concat (localTransform (transform this))]"

text \<open>
  How a call ended: it returned, or an exception left it. The file has no
  \<^verbatim>\<open>try\<close>/\<^verbatim>\<open>finally\<close>, so an exception thrown by a hook leaves every enclosing method at
  the point of the call, with the calls made so far on the surface.
\<close>

datatype completion = Returned | Threw

text \<open>
  \<^verbatim>\<open>render\<close>. \<open>quickReject c this\<close> is the backend's answer to
  \<^verbatim>\<open>skCanvas.quickReject(this.renderFrame.toSk())\<close> on the surface that has received the
  calls \<open>c\<close>. \<^verbatim>\<open>this._render()\<close> is the call \<open>DrawSelf\<close>, and \<open>hook c this\<close> says how it
  ends on the surface that has received \<open>c\<close>: if it throws, \<^verbatim>\<open>render\<close> ends there and neither
  \<^verbatim>\<open>restore\<close> runs. A hook that returns is taken not to assign \<^verbatim>\<open>this.layerPaint\<close>.
\<close>

definition render ::
  "('m call list \<Rightarrow> 'm node \<Rightarrow> bool) \<Rightarrow> ('m call list \<Rightarrow> 'm node \<Rightarrow> completion)
     \<Rightarrow> 'm node \<Rightarrow> 'm call list \<Rightarrow> 'm node \<times> 'm call list \<times> completion" where
  "render quickReject hook this c =
     (let c1 = c @ [Save];
          c2 = applyTransform this c1;
          reject = quickReject c2 this;
          shouldRender = (\<not> canQuickReject this \<or> \<not> reject);
          r3 = (if shouldRender then
                  (let r = applyLayerStyle this c2
                   in (fst r, snd r @ [DrawSelf (objectId (model (fst r)))], hook (snd r) (fst r)))
                else (this, c2, Returned))
      in if snd (snd r3) = Threw then r3
         else
           (let c4 = fst (snd r3) @ [Restore];
                c5 = (if (case layerPaint (fst r3) of Paint p \<Rightarrow> True | _ \<Rightarrow> False) \<and> shouldRender
                      then c4 @ [Restore] else c4)
            in (fst r3, c5, Returned)))"

definition tryClip :: "'m node \<Rightarrow> 'm call list \<Rightarrow> 'm call list" where
  "tryClip this c =
     (if \<not> isMask this then c
      else
        let mat = localTransform (transform this)
        in c @ [Concat mat, ClipSelf (objectId (model this)), ConcatInverse mat])"

text \<open>
  \<^verbatim>\<open>renderChildren\<close>: the \<^verbatim>\<open>for\<close> loop over \<^verbatim>\<open>this.children\<close> with the flag
  \<^verbatim>\<open>isMasking\<close>, then the closing \<^verbatim>\<open>restore\<close>. A rendered child may have built its layer
  paint, so the children are returned too. When the \<^verbatim>\<open>render\<close> of a child throws, the loop
  and the method end there.
\<close>

fun renderChildren_loop ::
  "('m call list \<Rightarrow> 'm node \<Rightarrow> bool) \<Rightarrow> ('m call list \<Rightarrow> 'm node \<Rightarrow> completion)
     \<Rightarrow> 'm view list \<Rightarrow> bool \<Rightarrow> 'm call list
     \<Rightarrow> 'm view list \<times> bool \<times> 'm call list \<times> completion" where
  "renderChildren_loop quickReject hook [] isMasking c = ([], isMasking, c, Returned)"
| "renderChildren_loop quickReject hook (childView # rest) isMasking c =
     (let mc1 = (if (isMask (self childView) \<or> shouldBreakMaskChain (self childView)) \<and> isMasking
                 then (False, c @ [Restore]) else (isMasking, c));
          vc2 = (if visible (self childView)
                 then (let r = render quickReject hook (self childView) (snd mc1)
                       in (View (fst r) (children childView), snd r))
                 else (childView, snd mc1, Returned))
      in if snd (snd vc2) = Threw then (fst vc2 # rest, fst mc1, fst (snd vc2), Threw)
         else
           (let mc3 = (if isMask (self (fst vc2))
                       then (True, tryClip (self (fst vc2)) (fst (snd vc2) @ [Save]))
                       else (fst mc1, fst (snd vc2)));
                r = renderChildren_loop quickReject hook rest (fst mc3) (snd mc3)
            in (fst vc2 # fst r, snd r)))"

definition renderChildren ::
  "('m call list \<Rightarrow> 'm node \<Rightarrow> bool) \<Rightarrow> ('m call list \<Rightarrow> 'm node \<Rightarrow> completion)
     \<Rightarrow> 'm view \<Rightarrow> 'm call list \<Rightarrow> 'm view \<times> 'm call list \<times> completion" where
  "renderChildren quickReject hook this c =
     (let r = renderChildren_loop quickReject hook (children this) False c
      in if snd (snd (snd r)) = Threw then (View (self this) (fst r), fst (snd (snd r)), Threw)
         else (View (self this) (fst r),
               if fst (snd r) then fst (snd (snd r)) @ [Restore] else fst (snd (snd r)),
               Returned))"

subsection \<open>Hit testing\<close>

text \<open>
  \<^verbatim>\<open>containsPoint\<close>. \<open>applyInverse\<close> is the method of the absent matrix class, applied
  to the world transform.
\<close>

definition containsPoint :: "('m \<Rightarrow> point \<Rightarrow> point) \<Rightarrow> 'm node \<Rightarrow> point \<Rightarrow> bool" where
  "containsPoint applyInverse this pt =
     (let local = applyInverse (worldTransform (transform this)) pt;
          frame0 = frame this
      in pt_x local > 0 \<and> pt_y local > 0
         \<and> pt_x local < rect_width frame0 \<and> pt_y local < rect_height frame0)"

text \<open>
  \<^verbatim>\<open>findView\<close>. \<open>findView_loop this n\<close> is the \<^verbatim>\<open>for\<close> loop about to test \<^verbatim>\<open>i = n - 1\<close>;
  at \<open>n = 0\<close> the loop is over and \<^verbatim>\<open>this\<close> is returned. The loop starts at
  \<^verbatim>\<open>children.length - 1\<close>, so the index is always in range; the last branch is never
  reached from \<open>findView\<close>.
\<close>

function findView :: "('m \<Rightarrow> point \<Rightarrow> point) \<Rightarrow> 'm view \<Rightarrow> point \<Rightarrow> 'm view option"
  and findView_loop :: "('m \<Rightarrow> point \<Rightarrow> point) \<Rightarrow> 'm view \<Rightarrow> nat \<Rightarrow> point \<Rightarrow> 'm view option"
  where
  "findView applyInverse this pt =
     (if containsPoint applyInverse (self this) pt
      then findView_loop applyInverse this (length (children this)) pt
      else None)"
| "findView_loop applyInverse this 0 pt = Some this"
| "findView_loop applyInverse this (Suc i) pt =
     (if i < length (children this) then
        (let child = children this ! i
         in if interactive (self child) then
              (case findView applyInverse child pt of
                 Some view \<Rightarrow> Some view
               | None \<Rightarrow> findView_loop applyInverse this i pt)
            else findView_loop applyInverse this i pt)
      else None)"
  by pat_completeness auto
termination
proof (relation "inv_image (less_than <*lex*> less_than) (\<lambda>a. case a of
          Inl (ai, this, pt) \<Rightarrow> (size this, Suc (length (children this)))
        | Inr (ai, this, n, pt) \<Rightarrow> (size this, n))", goal_cases)
  case 1
  show ?case by (intro wf_inv_image wf_lex_prod wf_less_than)
next
  case (2 ai this pt)
  show ?case by simp
next
  case (3 ai this i pt child)
  have nth_smaller: "k < length cs \<Longrightarrow> size (cs ! k) < Suc (size_list size cs)"
    for k and cs :: "'a view list"
  proof (induction cs arbitrary: k)
    case Nil
    then show ?case by simp
  next
    case (Cons a cs)
    show ?case
    proof (cases k)
      case 0
      then show ?thesis by simp
    next
      case (Suc j)
      with Cons.prems have "j < length cs" by simp
      from Cons.IH [OF this] Suc show ?thesis by simp
    qed
  qed
  from 3 have "size child < size this"
    using nth_smaller [of i "children this"] by (cases this) simp
  then show ?case by simp
next
  case 4
  then show ?case by simp
next
  case 5
  then show ?case by simp
qed

subsection \<open>Observations on the surface\<close>

text \<open>The scopes a list of calls acquires, in order.\<close>

definition acquired :: "'m call list \<Rightarrow> scope list" where
  "acquired cs =
     concat (map (\<lambda>c. case c of Save \<Rightarrow> [SaveScope] | SaveLayer p \<Rightarrow> [LayerScope p] | _ \<Rightarrow> []) cs)"

text \<open>
  The claim about masks, in its own words: the mask at position \<open>i\<close> covers the sibling at
  position \<open>j\<close> when it precedes it and no sibling after \<open>i\<close>, up to and including \<open>j\<close>,
  is a mask or breaks the mask chain.
\<close>

definition mask_covers :: "'m view list \<Rightarrow> nat \<Rightarrow> nat \<Rightarrow> bool" where
  "mask_covers cs i j =
     (i < j \<and> j < length cs \<and> isMask (self (cs ! i))
      \<and> (\<forall>k \<in> {i<..j}. \<not> isMask (self (cs ! k)) \<and> \<not> shouldBreakMaskChain (self (cs ! k))))"

text \<open>
  The calls the surface has received when the loop of \<^verbatim>\<open>renderChildren\<close> reaches
  \<^verbatim>\<open>if (childView.visible)\<close> for the child at position \<open>j\<close>: the loop over the
  children before it, then the first statement of the loop body for this child. The loop
  gets there when no child before \<open>j\<close> threw.
\<close>

definition reaches_child ::
  "('m call list \<Rightarrow> 'm node \<Rightarrow> bool) \<Rightarrow> ('m call list \<Rightarrow> 'm node \<Rightarrow> completion)
     \<Rightarrow> 'm view list \<Rightarrow> 'm call list \<Rightarrow> nat \<Rightarrow> bool" where
  "reaches_child quickReject hook cs c j =
     (snd (snd (snd (renderChildren_loop quickReject hook (take j cs) False c))) = Returned)"

definition calls_at_child ::
  "('m call list \<Rightarrow> 'm node \<Rightarrow> bool) \<Rightarrow> ('m call list \<Rightarrow> 'm node \<Rightarrow> completion)
     \<Rightarrow> 'm view list \<Rightarrow> 'm call list \<Rightarrow> nat \<Rightarrow> 'm call list" where
  "calls_at_child quickReject hook cs c j =
     (let r = renderChildren_loop quickReject hook (take j cs) False c;
          childView = cs ! j
      in if (isMask (self childView) \<or> shouldBreakMaskChain (self childView)) \<and> fst (snd r)
         then fst (snd (snd r)) @ [Restore] else fst (snd (snd r)))"

text \<open>
  Bookkeeping for the loop: the mask whose clip scope is open after a child, and what an
  open scope means for a surface whose clip and stack were \<open>cl0\<close> and \<open>st0\<close> before the
  loop.
\<close>

definition chain_step :: "string option \<Rightarrow> 'm view \<Rightarrow> string option" where
  "chain_step opn childView =
     (if isMask (self childView) then Some (objectId (model (self childView)))
      else if shouldBreakMaskChain (self childView) then None
      else opn)"

definition mask_inv ::
  "bool \<Rightarrow> string option \<Rightarrow> surface \<Rightarrow> string list \<Rightarrow> (scope \<times> string list) list \<Rightarrow> bool" where
  "mask_inv isMasking opn s cl0 st0 =
     ((isMasking \<longleftrightarrow> opn \<noteq> None)
      \<and> (case opn of
            None \<Rightarrow> stack s = st0 \<and> clip s = cl0
          | Some i \<Rightarrow> stack s = (SaveScope, cl0) # st0 \<and> clip s = cl0 @ [i]))"

subsection \<open>The search of findView, as specified\<close>

text \<open>
  The hit test in the words of the specification: nothing outside the node's own frame;
  otherwise the first result among the interactive children, last child first, each
  searched the same way; otherwise the node itself.
\<close>

fun spec_findView :: "('m \<Rightarrow> point \<Rightarrow> point) \<Rightarrow> point \<Rightarrow> 'm view \<Rightarrow> 'm view option" where
  "spec_findView applyInverse pt (View n cs) =
     (if containsPoint applyInverse n pt then
        (case List.find (\<lambda>r. r \<noteq> None)
                (map (spec_findView applyInverse pt)
                   (filter (\<lambda>child. interactive (self child)) (rev cs))) of
           Some r \<Rightarrow> r
         | None \<Rightarrow> Some (View n cs))
      else None)"

declare findView.simps [simp del] findView_loop.simps [simp del]

subsection \<open>Sample inputs\<close>

definition sample_layer :: "string \<Rightarrow> rect \<Rightarrow> layer" where
  "sample_layer i f =
     \<lparr>objectId = i, model_frame = f, isVisible = True, isLocked = False,
      hasClippingMask = False, model_shouldBreakMaskChain = False,
      isFlippedHorizontal = False, isFlippedVertical = False, model_rotation = 0,
      fixedWidth = False, fixedHeight = False,
      snapLeft = False, snapRight = False, snapTop = False, snapBottom = False,
      model_style = None\<rparr>"

definition sample_transform :: "'m \<Rightarrow> 'm transform" where
  "sample_transform m =
     \<lparr>pivot = \<lparr>pt_x = 0, pt_y = 0\<rparr>, position = \<lparr>pt_x = 0, pt_y = 0\<rparr>,
      scale = \<lparr>pt_x = 1, pt_y = 1\<rparr>, rotation = 0, localTransform = m, worldTransform = m\<rparr>"

definition sample_node :: "layer \<Rightarrow> rect option \<Rightarrow> 'm \<Rightarrow> 'm node" where
  "sample_node l sf m =
     \<lparr>model = l, scaledFrame = sf, transform = sample_transform m, layerPaint = Undefined,
      requireLayerDropShadow = False, canQuickReject = True\<rparr>"

definition Rect :: "real \<Rightarrow> real \<Rightarrow> real \<Rightarrow> real \<Rightarrow> rect" where
  "Rect a b c d = \<lparr>rect_x = a, rect_y = b, rect_width = c, rect_height = d\<rparr>"

text \<open>A stand-in for the matrix class in examples: a translation, given by its offset.\<close>

definition Point :: "real \<Rightarrow> real \<Rightarrow> point" where
  "Point a b = \<lparr>pt_x = a, pt_y = b\<rparr>"

definition translate_inverse :: "point \<Rightarrow> point \<Rightarrow> point" where
  "translate_inverse m p = \<lparr>pt_x = pt_x p - pt_x m, pt_y = pt_y p - pt_y m\<rparr>"

text \<open>The siblings \<^verbatim>\<open>[mask1, plain1, plain2, mask2, plain3]\<close>.\<close>

definition mask_example :: "unit view list" where
  "mask_example =
     [View (sample_node ((sample_layer ''mask1'' (Rect 0 0 10 10))\<lparr>hasClippingMask := True\<rparr>) None ()) [],
      View (sample_node (sample_layer ''plain1'' (Rect 0 0 10 10)) None ()) [],
      View (sample_node (sample_layer ''plain2'' (Rect 0 0 10 10)) None ()) [],
      View (sample_node ((sample_layer ''mask2'' (Rect 0 0 10 10))\<lparr>hasClippingMask := True\<rparr>) None ()) [],
      View (sample_node (sample_layer ''plain3'' (Rect 0 0 10 10)) None ()) []]"

text \<open>
  Two overlapping siblings in a 100 by 100 root: \<open>a\<close> at the origin and \<open>b\<close>, drawn last,
  at (40, 40), both 60 by 60.
\<close>

definition overlap_example :: "point view" where
  "overlap_example =
     View (sample_node (sample_layer ''root'' (Rect 0 0 100 100)) None (Point 0 0))
       [View (sample_node (sample_layer ''a'' (Rect 0 0 60 60)) None (Point 0 0)) [],
        View (sample_node (sample_layer ''b'' (Rect 40 40 60 60)) None (Point 40 40)) []]"

text \<open>A draw hook that always returns, and one that always throws.\<close>

definition returning_hook :: "'m call list \<Rightarrow> 'm node \<Rightarrow> completion" where
  "returning_hook c this = Returned"

definition throwing_hook :: "'m call list \<Rightarrow> 'm node \<Rightarrow> completion" where
  "throwing_hook c this = Threw"

text \<open>A node whose style asks for a layer paint: opacity one half.\<close>

definition translucent_node :: "unit node" where
  "translucent_node =
     sample_node ((sample_layer ''c'' (Rect 0 0 10 10))
       \<lparr>model_style := Some \<lparr>contextSettings = Some \<lparr>opacity = 1 / 2, blendMode = Src\<rparr>,
                             shadows = None, style_blur = None\<rparr>\<rparr>) None ()"

text \<open>A surface with nothing saved and no clip.\<close>

definition empty_surface :: surface where
  "empty_surface = \<lparr>clip = [], stack = [], drawn = [], released = []\<rparr>"

section \<open>Auxiliary facts\<close>

lemmas sample_defs = sample_layer_def sample_transform_def sample_node_def Rect_def

lemmas layout_defs = calcInstanceChildScale_def calcOffsetAfterScale_def commonLayoutSelf_def
  isFrameScaled_def frame_def intrinsicFrame_def

lemmas render_defs = render_def applyTransform_def applyLayerStyle_def buildLayerPaint_def
  firstShadow_def emptyPaint_def

lemma layerPaint_buildLayerPaint: "layerPaint (buildLayerPaint this) \<noteq> Undefined"
  by (simp add: buildLayerPaint_def Let_def split: option.splits)

lemma applyLayerStyle_cases:
  "(\<exists>p. layerPaint (fst (applyLayerStyle this c)) = Paint p
        \<and> snd (applyLayerStyle this c) = c @ [SaveLayer p])
   \<or> (layerPaint (fst (applyLayerStyle this c)) = Null \<and> snd (applyLayerStyle this c) = c)"
proof (cases "layerPaint this = Undefined")
  case True
  then show ?thesis
    using layerPaint_buildLayerPaint [of this]
    by (cases "layerPaint (buildLayerPaint this)") (simp_all add: applyLayerStyle_def)
next
  case False
  then show ?thesis
    by (cases "layerPaint this") (simp_all add: applyLayerStyle_def)
qed

lemma model_applyLayerStyle: "model (fst (applyLayerStyle this c)) = model this"
  by (simp add: applyLayerStyle_def buildLayerPaint_def Let_def split: option.splits layer_paint.splits)

lemma replay_append: "replay (a @ b) s = replay b (replay a s)"
  by (simp add: replay_def)

lemma render_issued:
  "\<exists>issued. fst (snd (render quickReject hook this c)) = c @ issued
     \<and> (snd (snd (render quickReject hook this c)) = Returned \<longrightarrow>
           issued = [Save, Concat (localTransform (transform this)), Restore]
           \<or> issued = [Save, Concat (localTransform (transform this)),
                        DrawSelf (objectId (model this)), Restore]
           \<or> (\<exists>p. issued = [Save, Concat (localTransform (transform this)), SaveLayer p,
                             DrawSelf (objectId (model this)), Restore, Restore]))
     \<and> (snd (snd (render quickReject hook this c)) = Threw \<longrightarrow>
           issued = [Save, Concat (localTransform (transform this)),
                     DrawSelf (objectId (model this))]
           \<or> (\<exists>p. issued = [Save, Concat (localTransform (transform this)), SaveLayer p,
                             DrawSelf (objectId (model this))]))"
proof (cases "\<not> canQuickReject this
              \<or> \<not> quickReject (c @ [Save, Concat (localTransform (transform this))]) this")
  case False
  then show ?thesis
    by (simp add: render_def applyTransform_def Let_def)
next
  case True
  let ?c2 = "c @ [Save, Concat (localTransform (transform this))]"
  let ?r = "applyLayerStyle this ?c2"
  show ?thesis
  proof (cases "hook (snd ?r) (fst ?r)")
    case Returned
    from applyLayerStyle_cases [of this ?c2] show ?thesis
    proof
      assume "\<exists>p. layerPaint (fst ?r) = Paint p \<and> snd ?r = ?c2 @ [SaveLayer p]"
      with True Returned show ?thesis
        by (auto simp add: render_def applyTransform_def Let_def model_applyLayerStyle)
    next
      assume "layerPaint (fst ?r) = Null \<and> snd ?r = ?c2"
      with True Returned show ?thesis
        by (auto simp add: render_def applyTransform_def Let_def model_applyLayerStyle)
    qed
  next
    case Threw
    from applyLayerStyle_cases [of this ?c2] show ?thesis
    proof
      assume "\<exists>p. layerPaint (fst ?r) = Paint p \<and> snd ?r = ?c2 @ [SaveLayer p]"
      with True Threw show ?thesis
        by (auto simp add: render_def applyTransform_def Let_def model_applyLayerStyle)
    next
      assume "layerPaint (fst ?r) = Null \<and> snd ?r = ?c2"
      with True Threw show ?thesis
        by (auto simp add: render_def applyTransform_def Let_def model_applyLayerStyle)
    qed
  qed
qed

lemma model_render: "model (fst (render quickReject hook this c)) = model this"
  by (simp add: render_def Let_def model_applyLayerStyle)

lemma render_extends: "\<exists>issued. fst (snd (render quickReject hook this c)) = c @ issued"
  using render_issued [of quickReject hook this c] by blast

lemma render_neutral:
  assumes "snd (snd (render quickReject hook this c)) = Returned"
  shows "\<exists>issued. fst (snd (render quickReject hook this c)) = c @ issued
     \<and> (\<forall>s. stack (replay issued s) = stack s \<and> clip (replay issued s) = clip s)"
proof -
  from render_issued [of quickReject hook this c] assms obtain issued where
    c: "fst (snd (render quickReject hook this c)) = c @ issued" and
    i: "issued = [Save, Concat (localTransform (transform this)), Restore]
        \<or> issued = [Save, Concat (localTransform (transform this)),
                     DrawSelf (objectId (model this)), Restore]
        \<or> (\<exists>p. issued = [Save, Concat (localTransform (transform this)), SaveLayer p,
                          DrawSelf (objectId (model this)), Restore, Restore])"
    by blast
  from i have "\<forall>s. stack (replay issued s) = stack s \<and> clip (replay issued s) = clip s"
    by (auto simp add: replay_def)
  with c show ?thesis by blast
qed

lemma render_returns:
  assumes "\<forall>c n. hook c n = Returned"
  shows "snd (snd (render quickReject hook this c)) = Returned"
  using assms by (simp add: render_def Let_def)

lemma loop_step_inv:
  assumes "snd (snd (snd (renderChildren_loop quickReject hook (childView # rest) isMasking c)))
             = Returned"
  shows "\<exists>issued m1 v1.
      renderChildren_loop quickReject hook (childView # rest) isMasking c
        = (v1 # fst (renderChildren_loop quickReject hook rest m1 (c @ issued)),
           snd (renderChildren_loop quickReject hook rest m1 (c @ issued)))
      \<and> (\<forall>s cl0 st0. mask_inv isMasking opn s cl0 st0
            \<longrightarrow> mask_inv m1 (chain_step opn childView) (replay issued s) cl0 st0)"
proof -
  define mc1 where "mc1 = (if (isMask (self childView) \<or> shouldBreakMaskChain (self childView)) \<and> isMasking
                 then (False, c @ [Restore]) else (isMasking, c))"
  define vc2 where "vc2 = (if visible (self childView)
                 then (let r = render quickReject hook (self childView) (snd mc1)
                       in (View (fst r) (children childView), snd r))
                 else (childView, snd mc1, Returned))"
  define mc3 where "mc3 = (if isMask (self (fst vc2))
                 then (True, tryClip (self (fst vc2)) (fst (snd vc2) @ [Save]))
                 else (fst mc1, fst (snd vc2)))"
  have unfold: "renderChildren_loop quickReject hook (childView # rest) isMasking c
        = (if snd (snd vc2) = Threw then (fst vc2 # rest, fst mc1, fst (snd vc2), Threw)
           else (fst vc2 # fst (renderChildren_loop quickReject hook rest (fst mc3) (snd mc3)),
                 snd (renderChildren_loop quickReject hook rest (fst mc3) (snd mc3))))"
    by (simp add: Let_def mc1_def vc2_def mc3_def)
  from assms unfold have ret: "snd (snd vc2) = Returned"
    by (cases "snd (snd vc2)") simp_all
  with unfold have eq: "renderChildren_loop quickReject hook (childView # rest) isMasking c
        = (fst vc2 # fst (renderChildren_loop quickReject hook rest (fst mc3) (snd mc3)),
           snd (renderChildren_loop quickReject hook rest (fst mc3) (snd mc3)))"
    by simp
  define i1 where "i1 = (if (isMask (self childView) \<or> shouldBreakMaskChain (self childView)) \<and> isMasking
                 then [Restore :: 'a call] else [])"
  have c1: "snd mc1 = c @ i1" by (simp add: mc1_def i1_def)
  obtain i2 where c2: "fst (snd vc2) = snd mc1 @ i2"
    and n2: "\<forall>s. stack (replay i2 s) = stack s \<and> clip (replay i2 s) = clip s"
  proof (cases "visible (self childView)")
    case True
    with ret have "snd (snd (render quickReject hook (self childView) (snd mc1))) = Returned"
      by (simp add: vc2_def Let_def)
    from render_neutral [OF this] obtain issued where
      "fst (snd (render quickReject hook (self childView) (snd mc1))) = snd mc1 @ issued"
      "\<forall>s. stack (replay issued s) = stack s \<and> clip (replay issued s) = clip s" by blast
    with True that show ?thesis by (simp add: vc2_def Let_def)
  next
    case False
    have "\<forall>s. stack (replay ([] :: 'a call list) s) = stack s \<and> clip (replay ([] :: 'a call list) s) = clip s"
      by (simp add: replay_def)
    with False that [of "[]"] show ?thesis by (simp add: vc2_def)
  qed
  have m2: "isMask (self (fst vc2)) = isMask (self childView)"
       "objectId (model (self (fst vc2))) = objectId (model (self childView))"
    by (simp_all add: vc2_def Let_def isMask_def model_render)
  define i3 where "i3 = (if isMask (self childView)
       then [Save, Concat (localTransform (transform (self (fst vc2)))),
             ClipSelf (objectId (model (self childView))),
             ConcatInverse (localTransform (transform (self (fst vc2))))] else [])"
  have c3: "snd mc3 = fst (snd vc2) @ i3"
    using m2 by (simp add: mc3_def i3_def tryClip_def Let_def)
  have all: "snd mc3 = c @ (i1 @ i2 @ i3)" using c1 c2 c3 by simp
  have "mask_inv (fst mc3) (chain_step opn childView) (replay (i1 @ i2 @ i3) s) cl0 st0"
    if inv: "mask_inv isMasking opn s cl0 st0" for s cl0 st0
  proof (cases "isMask (self childView)")
    case True
    show ?thesis
    proof (cases "opn")
      case None
      with True inv n2 show ?thesis
        by (simp add: mask_inv_def chain_step_def mc3_def m2 i1_def i3_def replay_def)
    next
      case (Some a)
      with True inv n2 show ?thesis
        by (simp add: mask_inv_def chain_step_def mc3_def m2 i1_def i3_def replay_def)
    qed
  next
    case False
    show ?thesis
    proof (cases "opn")
      case None
      with False inv n2 show ?thesis
        by (simp add: mask_inv_def chain_step_def mc3_def mc1_def m2 i1_def i3_def replay_def)
    next
      case (Some a)
      with False inv n2 show ?thesis
        by (simp add: mask_inv_def chain_step_def mc3_def mc1_def m2 i1_def i3_def replay_def)
    qed
  qed
  with eq all show ?thesis by metis
qed

lemma loop_inv:
  assumes "snd (snd (snd (renderChildren_loop quickReject hook cs isMasking c))) = Returned"
  shows "\<exists>issued. fst (snd (snd (renderChildren_loop quickReject hook cs isMasking c))) = c @ issued
     \<and> (\<forall>s cl0 st0. mask_inv isMasking opn s cl0 st0
           \<longrightarrow> mask_inv (fst (snd (renderChildren_loop quickReject hook cs isMasking c)))
                 (foldl chain_step opn cs) (replay issued s) cl0 st0)"
  using assms
proof (induction cs arbitrary: isMasking c opn)
  case Nil
  have "replay ([] :: 'a call list) s = s" for s by (simp add: replay_def)
  then show ?case by simp
next
  case (Cons childView rest)
  from loop_step_inv [OF Cons.prems, of opn]
  obtain i1 m1 v1 where
    eq: "renderChildren_loop quickReject hook (childView # rest) isMasking c
        = (v1 # fst (renderChildren_loop quickReject hook rest m1 (c @ i1)),
           snd (renderChildren_loop quickReject hook rest m1 (c @ i1)))"
    and st: "\<forall>s cl0 st0. mask_inv isMasking opn s cl0 st0
            \<longrightarrow> mask_inv m1 (chain_step opn childView) (replay i1 s) cl0 st0"
    by blast
  from eq Cons.prems have
    "snd (snd (snd (renderChildren_loop quickReject hook rest m1 (c @ i1)))) = Returned"
    by simp
  from Cons.IH [OF this, of "chain_step opn childView"]
  obtain i2 where
    c2: "fst (snd (snd (renderChildren_loop quickReject hook rest m1 (c @ i1)))) = (c @ i1) @ i2"
    and st2: "\<forall>s cl0 st0. mask_inv m1 (chain_step opn childView) s cl0 st0
           \<longrightarrow> mask_inv (fst (snd (renderChildren_loop quickReject hook rest m1 (c @ i1))))
                 (foldl chain_step (chain_step opn childView) rest) (replay i2 s) cl0 st0"
    by blast
  have "fst (snd (snd (renderChildren_loop quickReject hook (childView # rest) isMasking c)))
          = c @ (i1 @ i2)"
    using eq c2 by simp
  moreover have "\<forall>s cl0 st0. mask_inv isMasking opn s cl0 st0
           \<longrightarrow> mask_inv (fst (snd (renderChildren_loop quickReject hook (childView # rest) isMasking c)))
                 (foldl chain_step opn (childView # rest)) (replay (i1 @ i2) s) cl0 st0"
    using eq st st2 by (simp add: replay_append)
  ultimately show ?case by blast
qed

lemma loop_extends:
  "\<exists>issued. fst (snd (snd (renderChildren_loop quickReject hook cs isMasking c))) = c @ issued"
proof (induction cs arbitrary: isMasking c)
  case Nil
  show ?case by simp
next
  case (Cons childView rest)
  define c1 where "c1 = (if (isMask (self childView) \<or> shouldBreakMaskChain (self childView)) \<and> isMasking
                 then c @ [Restore] else c)"
  define m1 where "m1 = (if (isMask (self childView) \<or> shouldBreakMaskChain (self childView)) \<and> isMasking
                 then False else isMasking)"
  define vc2 where "vc2 = (if visible (self childView)
                 then (let r = render quickReject hook (self childView) c1
                       in (View (fst r) (children childView), snd r))
                 else (childView, c1, Returned))"
  define mc3 where "mc3 = (if isMask (self (fst vc2))
                 then (True, tryClip (self (fst vc2)) (fst (snd vc2) @ [Save]))
                 else (m1, fst (snd vc2)))"
  have unfold: "renderChildren_loop quickReject hook (childView # rest) isMasking c
        = (if snd (snd vc2) = Threw then (fst vc2 # rest, m1, fst (snd vc2), Threw)
           else (fst vc2 # fst (renderChildren_loop quickReject hook rest (fst mc3) (snd mc3)),
                 snd (renderChildren_loop quickReject hook rest (fst mc3) (snd mc3))))"
    by (simp add: Let_def c1_def m1_def vc2_def mc3_def)
  have "\<exists>i1. c1 = c @ i1" by (simp add: c1_def)
  then obtain i1 where e1: "c1 = c @ i1" by blast
  have "\<exists>i2. fst (snd vc2) = c1 @ i2"
    using render_extends [of quickReject hook "self childView" c1]
    by (simp add: vc2_def Let_def)
  then obtain i2 where e2: "fst (snd vc2) = c1 @ i2" by blast
  have "\<exists>i3. snd mc3 = fst (snd vc2) @ i3"
    by (simp add: mc3_def tryClip_def Let_def)
  then obtain i3 where e3: "snd mc3 = fst (snd vc2) @ i3" by blast
  from Cons.IH [of "fst mc3" "snd mc3"] obtain i4 where
    e4: "fst (snd (snd (renderChildren_loop quickReject hook rest (fst mc3) (snd mc3)))) = snd mc3 @ i4"
    by blast
  show ?case
  proof (cases "snd (snd vc2) = Threw")
    case True
    with unfold e1 e2 show ?thesis by simp
  next
    case False
    with unfold e1 e2 e3 e4 show ?thesis by simp
  qed
qed

lemma loop_append:
  assumes "snd (snd (snd (renderChildren_loop quickReject hook xs isMasking c))) = Returned"
  shows "renderChildren_loop quickReject hook (xs @ ys) isMasking c
     = (fst (renderChildren_loop quickReject hook xs isMasking c)
          @ fst (renderChildren_loop quickReject hook ys
                   (fst (snd (renderChildren_loop quickReject hook xs isMasking c)))
                   (fst (snd (snd (renderChildren_loop quickReject hook xs isMasking c))))),
        snd (renderChildren_loop quickReject hook ys
                   (fst (snd (renderChildren_loop quickReject hook xs isMasking c)))
                   (fst (snd (snd (renderChildren_loop quickReject hook xs isMasking c))))))"
  using assms
proof (induction xs arbitrary: isMasking c)
  case Nil
  show ?case by simp
next
  case (Cons childView rest)
  define mc1 where "mc1 = (if (isMask (self childView) \<or> shouldBreakMaskChain (self childView)) \<and> isMasking
                 then (False, c @ [Restore]) else (isMasking, c))"
  define vc2 where "vc2 = (if visible (self childView)
                 then (let r = render quickReject hook (self childView) (snd mc1)
                       in (View (fst r) (children childView), snd r))
                 else (childView, snd mc1, Returned))"
  define mc3 where "mc3 = (if isMask (self (fst vc2))
                 then (True, tryClip (self (fst vc2)) (fst (snd vc2) @ [Save]))
                 else (fst mc1, fst (snd vc2)))"
  have unfold: "renderChildren_loop quickReject hook (childView # zs) isMasking c
        = (if snd (snd vc2) = Threw then (fst vc2 # zs, fst mc1, fst (snd vc2), Threw)
           else (fst vc2 # fst (renderChildren_loop quickReject hook zs (fst mc3) (snd mc3)),
                 snd (renderChildren_loop quickReject hook zs (fst mc3) (snd mc3))))" for zs
    by (simp add: Let_def mc1_def vc2_def mc3_def)
  from Cons.prems unfold [of rest] have ret: "snd (snd vc2) \<noteq> Threw"
    by (cases "snd (snd vc2)") simp_all
  with Cons.prems unfold [of rest] have
    "snd (snd (snd (renderChildren_loop quickReject hook rest (fst mc3) (snd mc3)))) = Returned"
    by simp
  from Cons.IH [OF this] ret unfold [of rest] unfold [of "rest @ ys"]
  show ?case by simp
qed

lemma chain_step_mask:
  "isMask (self v) \<Longrightarrow> chain_step opn v = Some (objectId (model (self v)))"
  by (simp add: chain_step_def)

lemma chain_step_break:
  "\<not> isMask (self v) \<Longrightarrow> shouldBreakMaskChain (self v) \<Longrightarrow> chain_step opn v = None"
  by (simp add: chain_step_def)

lemma chain_step_plain:
  "\<not> isMask (self v) \<Longrightarrow> \<not> shouldBreakMaskChain (self v) \<Longrightarrow> chain_step opn v = opn"
  by (simp add: chain_step_def)

lemma chain_fold_Some:
  "j \<le> length cs \<Longrightarrow> foldl chain_step None (take j cs) = Some x \<Longrightarrow>
     \<exists>i<j. isMask (self (cs ! i)) \<and> x = objectId (model (self (cs ! i)))
          \<and> (\<forall>k. i < k \<and> k < j \<longrightarrow> \<not> isMask (self (cs ! k)) \<and> \<not> shouldBreakMaskChain (self (cs ! k)))"
proof (induction j arbitrary: x)
  case 0
  then show ?case by simp
next
  case (Suc j)
  then have j: "j < length cs" by simp
  then have tk: "take (Suc j) cs = take j cs @ [cs ! j]" by (simp add: take_Suc_conv_app_nth)
  show ?case
  proof (cases "isMask (self (cs ! j))")
    case True
    with Suc.prems tk have "x = objectId (model (self (cs ! j)))"
      by (simp add: chain_step_mask)
    with True show ?thesis by (intro exI [of _ j]) auto
  next
    case False
    show ?thesis
    proof (cases "shouldBreakMaskChain (self (cs ! j))")
      case True
      with False Suc.prems tk show ?thesis by (simp add: chain_step_break)
    next
      case nb: False
      with False Suc.prems tk have "foldl chain_step None (take j cs) = Some x"
        by (simp add: chain_step_plain)
      from Suc.IH [OF _ this] j obtain i where
        i: "i < j" "isMask (self (cs ! i))" "x = objectId (model (self (cs ! i)))"
          "\<forall>k. i < k \<and> k < j \<longrightarrow> \<not> isMask (self (cs ! k)) \<and> \<not> shouldBreakMaskChain (self (cs ! k))"
        by auto
      have "\<forall>k. i < k \<and> k < Suc j \<longrightarrow> \<not> isMask (self (cs ! k)) \<and> \<not> shouldBreakMaskChain (self (cs ! k))"
        using i(4) False nb by (auto simp: less_Suc_eq)
      with i show ?thesis by (intro exI [of _ i]) auto
    qed
  qed
qed

lemma chain_fold_None:
  "j \<le> length cs \<Longrightarrow> foldl chain_step None (take j cs) = None \<Longrightarrow> i < j \<Longrightarrow>
     isMask (self (cs ! i)) \<Longrightarrow>
     \<exists>k. i < k \<and> k < j \<and> (isMask (self (cs ! k)) \<or> shouldBreakMaskChain (self (cs ! k)))"
proof (induction j)
  case 0
  then show ?case by simp
next
  case (Suc j)
  then have j: "j < length cs" by simp
  then have tk: "take (Suc j) cs = take j cs @ [cs ! j]" by (simp add: take_Suc_conv_app_nth)
  show ?case
  proof (cases "isMask (self (cs ! j))")
    case True
    with Suc.prems tk show ?thesis by (simp add: chain_step_mask)
  next
    case False
    with Suc.prems have ij: "i < j" by (cases "i = j") auto
    show ?thesis
    proof (cases "shouldBreakMaskChain (self (cs ! j))")
      case True
      with ij show ?thesis by (intro exI [of _ j]) simp
    next
      case nb: False
      with False Suc.prems tk have "foldl chain_step None (take j cs) = None"
        by (simp add: chain_step_plain)
      from Suc.IH [OF _ this ij Suc.prems(4)] j obtain k where
        "i < k" "k < j" "isMask (self (cs ! k)) \<or> shouldBreakMaskChain (self (cs ! k))" by auto
      then show ?thesis by (intro exI [of _ k]) simp
    qed
  qed
qed

lemma loop_cons_calls:
  "\<exists>more. fst (snd (snd (renderChildren_loop quickReject hook (childView # rest) isMasking c)))
      = (if visible (self childView)
         then fst (snd (render quickReject hook (self childView)
                (if (isMask (self childView) \<or> shouldBreakMaskChain (self childView)) \<and> isMasking
                 then c @ [Restore] else c)))
         else (if (isMask (self childView) \<or> shouldBreakMaskChain (self childView)) \<and> isMasking
                 then c @ [Restore] else c)) @ more"
proof -
  define c1 where "c1 = (if (isMask (self childView) \<or> shouldBreakMaskChain (self childView)) \<and> isMasking
                 then c @ [Restore] else c)"
  define m1 where "m1 = (if (isMask (self childView) \<or> shouldBreakMaskChain (self childView)) \<and> isMasking
                 then False else isMasking)"
  define vc2 where "vc2 = (if visible (self childView)
                 then (let r = render quickReject hook (self childView) c1
                       in (View (fst r) (children childView), snd r))
                 else (childView, c1, Returned))"
  define mc3 where "mc3 = (if isMask (self (fst vc2))
                 then (True, tryClip (self (fst vc2)) (fst (snd vc2) @ [Save]))
                 else (m1, fst (snd vc2)))"
  have unfold: "renderChildren_loop quickReject hook (childView # rest) isMasking c
        = (if snd (snd vc2) = Threw then (fst vc2 # rest, m1, fst (snd vc2), Threw)
           else (fst vc2 # fst (renderChildren_loop quickReject hook rest (fst mc3) (snd mc3)),
                 snd (renderChildren_loop quickReject hook rest (fst mc3) (snd mc3))))"
    by (simp add: Let_def c1_def m1_def vc2_def mc3_def)
  from loop_extends [of quickReject hook rest "fst mc3" "snd mc3"] obtain i4 where
    c4: "fst (snd (snd (renderChildren_loop quickReject hook rest (fst mc3) (snd mc3)))) = snd mc3 @ i4"
    by blast
  have "\<exists>i3. snd mc3 = fst (snd vc2) @ i3"
    by (simp add: mc3_def tryClip_def Let_def)
  then obtain i3 where c3: "snd mc3 = fst (snd vc2) @ i3" by blast
  have c2: "fst (snd vc2) = (if visible (self childView)
         then fst (snd (render quickReject hook (self childView) c1)) else c1)"
    by (simp add: vc2_def Let_def)
  have "\<exists>more. fst (snd (snd (renderChildren_loop quickReject hook (childView # rest) isMasking c)))
      = (if visible (self childView)
         then fst (snd (render quickReject hook (self childView) c1)) else c1) @ more"
  proof (cases "snd (snd vc2) = Threw")
    case True
    with unfold c2 show ?thesis by simp
  next
    case False
    with unfold c4 c3 c2 show ?thesis by simp
  qed
  then show ?thesis unfolding c1_def by blast
qed

lemma clip_at_child:
  assumes "j < length cs" and "reaches_child quickReject hook cs c j"
  shows "clip (replay (calls_at_child quickReject hook cs c j) s)
           = clip (replay c s)
             @ (if isMask (self (cs ! j)) \<or> shouldBreakMaskChain (self (cs ! j)) then []
                else case foldl chain_step None (take j cs) of None \<Rightarrow> [] | Some a \<Rightarrow> [a])"
proof -
  have base: "mask_inv False None (replay c s) (clip (replay c s)) (stack (replay c s))"
    by (simp add: mask_inv_def)
  from assms(2) have
    ret: "snd (snd (snd (renderChildren_loop quickReject hook (take j cs) False c))) = Returned"
    by (simp add: reaches_child_def)
  from loop_inv [OF ret, of None] obtain issued where
    c1: "fst (snd (snd (renderChildren_loop quickReject hook (take j cs) False c))) = c @ issued" and
    inv: "\<forall>s cl0 st0. mask_inv False None s cl0 st0
           \<longrightarrow> mask_inv (fst (snd (renderChildren_loop quickReject hook (take j cs) False c)))
                 (foldl chain_step None (take j cs)) (replay issued s) cl0 st0"
    by blast
  from inv base have
    i: "mask_inv (fst (snd (renderChildren_loop quickReject hook (take j cs) False c)))
          (foldl chain_step None (take j cs)) (replay issued (replay c s))
          (clip (replay c s)) (stack (replay c s))"
    by blast
  show ?thesis
  proof (cases "foldl chain_step None (take j cs)")
    case None
    with i c1 show ?thesis
      by (simp add: calls_at_child_def Let_def mask_inv_def replay_append)
  next
    case (Some a)
    with i c1 show ?thesis
      by (simp add: calls_at_child_def Let_def mask_inv_def replay_append)
         (simp add: replay_def)
  qed
qed

lemma loop_returns:
  assumes "\<forall>c n. hook c n = Returned"
  shows "snd (snd (snd (renderChildren_loop quickReject hook cs isMasking c))) = Returned"
proof (induction cs arbitrary: isMasking c)
  case Nil
  show ?case by simp
next
  case (Cons childView rest)
  from render_returns [OF assms] Cons.IH show ?case
    by (simp add: Let_def)
qed

lemma renderChildren_returns:
  assumes "\<forall>c n. hook c n = Returned"
  shows "snd (snd (renderChildren quickReject hook this c)) = Returned"
  using loop_returns [OF assms] by (simp add: renderChildren_def Let_def)

lemma covers_clip:
  assumes "mask_covers cs i j"
  shows "\<not> isMask (self (cs ! j))" "\<not> shouldBreakMaskChain (self (cs ! j))"
    "foldl chain_step None (take j cs) = Some (objectId (model (self (cs ! i))))"
proof -
  from assms have ij: "i < j" and j: "j < length cs" and mi: "isMask (self (cs ! i))"
    and free: "\<And>k. i < k \<Longrightarrow> k \<le> j \<Longrightarrow>
                 \<not> isMask (self (cs ! k)) \<and> \<not> shouldBreakMaskChain (self (cs ! k))"
    by (auto simp add: mask_covers_def)
  from free [of j] ij show "\<not> isMask (self (cs ! j))" "\<not> shouldBreakMaskChain (self (cs ! j))"
    by simp_all
  show "foldl chain_step None (take j cs) = Some (objectId (model (self (cs ! i))))"
  proof (cases "foldl chain_step None (take j cs)")
    case None
    from chain_fold_None [OF _ None ij mi] j obtain k where
      "i < k" "k < j" "isMask (self (cs ! k)) \<or> shouldBreakMaskChain (self (cs ! k))" by auto
    with free [of k] show ?thesis by simp
  next
    case (Some x)
    from chain_fold_Some [OF _ Some] j obtain i' where
      i': "i' < j" "isMask (self (cs ! i'))" "x = objectId (model (self (cs ! i')))"
        "\<forall>k. i' < k \<and> k < j \<longrightarrow> \<not> isMask (self (cs ! k)) \<and> \<not> shouldBreakMaskChain (self (cs ! k))"
      by auto
    have "i' = i"
    proof (rule ccontr)
      assume "i' \<noteq> i"
      then consider "i < i'" | "i' < i" by linarith
      then show False
      proof cases
        case 1
        with free [of i'] i'(1,2) show False by simp
      next
        case 2
        with i'(4) ij mi show False by blast
      qed
    qed
    with Some i'(3) show ?thesis by simp
  qed
qed

lemma no_cover_clip:
  assumes "j < length cs" "\<not> (\<exists>i. mask_covers cs i j)"
    "\<not> isMask (self (cs ! j))" "\<not> shouldBreakMaskChain (self (cs ! j))"
  shows "foldl chain_step None (take j cs) = None"
proof (cases "foldl chain_step None (take j cs)")
  case None
  then show ?thesis .
next
  case (Some x)
  from chain_fold_Some [OF _ Some] assms(1) obtain i where
    i: "i < j" "isMask (self (cs ! i))"
      "\<forall>k. i < k \<and> k < j \<longrightarrow> \<not> isMask (self (cs ! k)) \<and> \<not> shouldBreakMaskChain (self (cs ! k))"
    by auto
  have "mask_covers cs i j"
    unfolding mask_covers_def
  proof (intro conjI ballI)
    fix k assume "k \<in> {i<..j}"
    then have "k < j \<or> k = j" by auto
    then show "\<not> isMask (self (cs ! k))" "\<not> shouldBreakMaskChain (self (cs ! k))"
      using i(3) assms(3,4) \<open>k \<in> {i<..j}\<close> by auto
  qed (use i assms(1) in simp_all)
  with assms(2) show ?thesis by blast
qed

lemma spec_findView_unfold:
  "spec_findView applyInverse pt this =
     (if containsPoint applyInverse (self this) pt then
        (case List.find (\<lambda>r. r \<noteq> None)
                (map (spec_findView applyInverse pt)
                   (filter (\<lambda>child. interactive (self child)) (rev (children this)))) of
           Some r \<Rightarrow> r
         | None \<Rightarrow> Some this)
      else None)"
  by (cases this) (auto split: option.splits)

lemma findView_refines:
  "findView applyInverse this pt = spec_findView applyInverse pt this"
  "n \<le> length (children this) \<Longrightarrow>
     findView_loop applyInverse this n pt
       = (case List.find (\<lambda>r. r \<noteq> None)
                (map (spec_findView applyInverse pt)
                   (filter (\<lambda>child. interactive (self child)) (rev (take n (children this))))) of
           Some r \<Rightarrow> r
         | None \<Rightarrow> Some this)"
proof (induction applyInverse this pt and applyInverse this n pt
        rule: findView_findView_loop.induct)
  case (1 applyInverse this pt)
  show ?case
  proof (cases "containsPoint applyInverse (self this) pt")
    case True
    from "1.IH" [OF True] True show ?thesis
      by (simp add: findView.simps spec_findView_unfold [of _ _ this])
  next
    case False
    then show ?thesis by (simp add: findView.simps spec_findView_unfold [of _ _ this])
  qed
next
  case (2 applyInverse this pt)
  show ?case by (simp add: findView_loop.simps)
next
  case (3 applyInverse this i pt)
  from "3.prems" have i: "i < length (children this)" by simp
  then have tk: "take (Suc i) (children this) = take i (children this) @ [children this ! i]"
    by (simp add: take_Suc_conv_app_nth)
  have le: "i \<le> length (children this)" using i by simp
  show ?case
  proof (cases "interactive (self (children this ! i))")
    case True
    note ih1 = "3.IH"(1) [OF i refl True]
    show ?thesis
    proof (cases "spec_findView applyInverse pt (children this ! i)")
      case None
      with ih1 have "findView applyInverse (children this ! i) pt = None" by simp
      from "3.IH"(2) [OF i refl True this le] True i None ih1 show ?thesis
        by (simp add: findView_loop.simps(2) [of _ _ i] tk)
    next
      case (Some r)
      with True i ih1 show ?thesis
        by (simp add: findView_loop.simps(2) [of _ _ i] tk)
    qed
  next
    case False
    from "3.IH"(3) [OF i refl False le] False i show ?thesis
      by (simp add: findView_loop.simps(2) [of _ _ i] tk)
  qed
qed

lemma findView_contains:
  "findView applyInverse this pt = Some w \<Longrightarrow> containsPoint applyInverse (self w) pt"
  "containsPoint applyInverse (self this) pt \<Longrightarrow> findView_loop applyInverse this n pt = Some w
     \<Longrightarrow> containsPoint applyInverse (self w) pt"
proof (induction applyInverse this pt and applyInverse this n pt
        arbitrary: w and w rule: findView_findView_loop.induct)
  case (1 applyInverse this pt)
  from "1.prems" have c: "containsPoint applyInverse (self this) pt"
    by (simp add: findView.simps split: if_splits)
  with "1.prems" have "findView_loop applyInverse this (length (children this)) pt = Some w"
    by (simp add: findView.simps)
  from "1.IH" [OF c c this] show ?case .
next
  case (2 applyInverse this pt)
  then show ?case by (simp add: findView_loop.simps)
next
  case (3 applyInverse this i pt)
  show ?case
  proof (cases "i < length (children this)")
    case False
    with "3.prems" show ?thesis by (simp add: findView_loop.simps(2) [of _ _ i])
  next
    case i: True
    show ?thesis
    proof (cases "interactive (self (children this ! i))")
      case True
      show ?thesis
      proof (cases "findView applyInverse (children this ! i) pt")
        case None
        with "3.prems" i True have "findView_loop applyInverse this i pt = Some w"
          by (simp add: findView_loop.simps(2) [of _ _ i])
        from "3.IH"(2) [OF i refl True None "3.prems"(1) this] show ?thesis .
      next
        case (Some r)
        with "3.prems" i True have "r = w"
          by (simp add: findView_loop.simps(2) [of _ _ i])
        with Some "3.IH"(1) [OF i refl True] show ?thesis by simp
      qed
    next
      case False
      with "3.prems" i have "findView_loop applyInverse this i pt = Some w"
        by (simp add: findView_loop.simps(2) [of _ _ i])
      from "3.IH"(3) [OF i refl False "3.prems"(1) this] show ?thesis .
    qed
  qed
qed

section \<open>The claims\<close>

text \<open>
  Claim C1, as amended. In a scaled parent, a child with \<^verbatim>\<open>fixedWidth\<close> gets \<open>scaleX = 1\<close>
  for every combination of \<^verbatim>\<open>snapLeft\<close> and \<^verbatim>\<open>snapRight\<close> except both set, where the
  stretch formula of the both-edges case applies whatever \<^verbatim>\<open>fixedWidth\<close> says; likewise
  for \<^verbatim>\<open>fixedHeight\<close> and \<open>scaleY\<close>. In every case \<^verbatim>\<open>commonLayoutSelf\<close> runs
  \<^verbatim>\<open>calcOffsetAfterScale\<close> on the scaled size and stores the origin it returns.
\<close>

theorem C1_fixed_axis_scale:
  assumes "isFrameScaled p"
  shows "(fixedWidth (model this) \<longrightarrow>
            map_option scaleX (calcInstanceChildScale (Some p) this)
              = Some (if snapLeft (model this) \<and> snapRight (model this)
                      then (rect_width (frame p)
                             - (rect_width (intrinsicFrame p) - rect_width (frame this)))
                           / rect_width (frame this)
                      else 1))
       \<and> (fixedHeight (model this) \<longrightarrow>
            map_option scaleY (calcInstanceChildScale (Some p) this)
              = Some (if snapTop (model this) \<and> snapBottom (model this)
                      then (rect_height (frame p)
                             - (rect_height (intrinsicFrame p) - rect_height (frame this)))
                           / rect_height (frame this)
                      else 1))
       \<and> (\<exists>info off.
            calcInstanceChildScale (Some p) (this\<lparr>scaledFrame := None\<rparr>) = Some info
            \<and> calcOffsetAfterScale (Some p) (this\<lparr>scaledFrame := None\<rparr>)
                 \<lparr>rect_x = 0, rect_y = 0,
                  rect_width = scaleX info * rect_width (model_frame (model this)),
                  rect_height = scaleY info * rect_height (model_frame (model this))\<rparr>
                 (model_frame (model this)) = Inr off
            \<and> commonLayoutSelf (Some p) this
                = Inr (this\<lparr>scaledFrame := Some
                     \<lparr>rect_x = newX off, rect_y = newY off,
                      rect_width = scaleX info * rect_width (model_frame (model this)),
                      rect_height = scaleY info * rect_height (model_frame (model this))\<rparr>\<rparr>))"
proof (intro conjI)
  show "fixedWidth (model this) \<longrightarrow>
            map_option scaleX (calcInstanceChildScale (Some p) this)
              = Some (if snapLeft (model this) \<and> snapRight (model this)
                      then (rect_width (frame p)
                             - (rect_width (intrinsicFrame p) - rect_width (frame this)))
                           / rect_width (frame this)
                      else 1)"
    using assms by (simp add: calcInstanceChildScale_def Let_def)
  show "fixedHeight (model this) \<longrightarrow>
            map_option scaleY (calcInstanceChildScale (Some p) this)
              = Some (if snapTop (model this) \<and> snapBottom (model this)
                      then (rect_height (frame p)
                             - (rect_height (intrinsicFrame p) - rect_height (frame this)))
                           / rect_height (frame this)
                      else 1)"
    using assms by (simp add: calcInstanceChildScale_def Let_def)
  obtain info where i: "calcInstanceChildScale (Some p) (this\<lparr>scaledFrame := None\<rparr>) = Some info"
    using assms by (simp add: calcInstanceChildScale_def Let_def)
  obtain off where o: "calcOffsetAfterScale (Some p) (this\<lparr>scaledFrame := None\<rparr>)
                 \<lparr>rect_x = 0, rect_y = 0,
                  rect_width = scaleX info * rect_width (model_frame (model this)),
                  rect_height = scaleY info * rect_height (model_frame (model this))\<rparr>
                 (model_frame (model this)) = Inr off"
    by (simp add: calcOffsetAfterScale_def Let_def)
  show "\<exists>info off.
            calcInstanceChildScale (Some p) (this\<lparr>scaledFrame := None\<rparr>) = Some info
            \<and> calcOffsetAfterScale (Some p) (this\<lparr>scaledFrame := None\<rparr>)
                 \<lparr>rect_x = 0, rect_y = 0,
                  rect_width = scaleX info * rect_width (model_frame (model this)),
                  rect_height = scaleY info * rect_height (model_frame (model this))\<rparr>
                 (model_frame (model this)) = Inr off
            \<and> commonLayoutSelf (Some p) this
                = Inr (this\<lparr>scaledFrame := Some
                     \<lparr>rect_x = newX off, rect_y = newY off,
                      rect_width = scaleX info * rect_width (model_frame (model this)),
                      rect_height = scaleY info * rect_height (model_frame (model this))\<rparr>\<rparr>)"
    using i o by (simp add: commonLayoutSelf_def Let_def)
qed

theorem C1_witness:
  "isFrameScaled (sample_node (sample_layer ''p'' (Rect 0 0 100 100)) (Some (Rect 0 0 160 130)) ())
   \<and> fixedWidth (model (sample_node ((sample_layer ''c'' (Rect 10 10 50 50))
         \<lparr>fixedWidth := True, fixedHeight := True, snapRight := True, snapBottom := True\<rparr>) None ()))
   \<and> fixedHeight (model (sample_node ((sample_layer ''c'' (Rect 10 10 50 50))
         \<lparr>fixedWidth := True, fixedHeight := True, snapRight := True, snapBottom := True\<rparr>) None ()))
   \<and> calcInstanceChildScale
         (Some (sample_node (sample_layer ''p'' (Rect 0 0 100 100)) (Some (Rect 0 0 160 130)) ()))
         (sample_node ((sample_layer ''c'' (Rect 10 10 50 50))
            \<lparr>fixedWidth := True, fixedHeight := True, snapRight := True, snapBottom := True\<rparr>) None ())
       = Some \<lparr>scaleX = 1, scaleY = 1\<rparr>
   \<and> map_sum id scaledFrame (commonLayoutSelf
         (Some (sample_node (sample_layer ''p'' (Rect 0 0 100 100)) (Some (Rect 0 0 160 130)) ()))
         (sample_node ((sample_layer ''c'' (Rect 10 10 50 50))
            \<lparr>fixedWidth := True, fixedHeight := True, snapRight := True, snapBottom := True\<rparr>) None ()))
       = Inr (Some (Rect 70 40 50 50))"
  using C1_fixed_axis_scale
    [of "sample_node (sample_layer ''p'' (Rect 0 0 100 100)) (Some (Rect 0 0 160 130)) ()"
        "sample_node ((sample_layer ''c'' (Rect 10 10 50 50))
            \<lparr>fixedWidth := True, fixedHeight := True, snapRight := True, snapBottom := True\<rparr>) None ()"]
  by (simp add: sample_defs layout_defs)

text \<open>
  The claim as first stated fails where both edges are snapped: with \<^verbatim>\<open>fixedWidth\<close>,
  \<^verbatim>\<open>snapLeft\<close> and \<^verbatim>\<open>snapRight\<close> all set, a child of width 80 in a parent widened from
  100 to 140 gets \<open>scaleX = 3/2\<close>.
\<close>

theorem C1_counterexample:
  "isFrameScaled (sample_node (sample_layer ''p'' (Rect 0 0 100 100)) (Some (Rect 0 0 140 100)) ())
   \<and> fixedWidth (model (sample_node ((sample_layer ''c'' (Rect 10 10 80 80))
         \<lparr>fixedWidth := True, snapLeft := True, snapRight := True\<rparr>) None ()))
   \<and> map_option scaleX (calcInstanceChildScale
         (Some (sample_node (sample_layer ''p'' (Rect 0 0 100 100)) (Some (Rect 0 0 140 100)) ()))
         (sample_node ((sample_layer ''c'' (Rect 10 10 80 80))
            \<lparr>fixedWidth := True, snapLeft := True, snapRight := True\<rparr>) None ()))
       = Some (3 / 2)
   \<and> (3 / 2 :: real) \<noteq> 1"
  by (simp add: sample_defs layout_defs)

text \<open>
  Claim C2. When the parent's frame size differs from its intrinsic size, a child with both
  edges of an axis snapped gets on that axis the scale
  \<open>(instance size - (master size - child size)) / child size\<close>, and
  \<^verbatim>\<open>calcOffsetAfterScale\<close> leaves its origin on that axis unchanged.
\<close>

theorem C2_both_edges_snapped_stretch:
  assumes "rect_width (frame p) \<noteq> rect_width (intrinsicFrame p)
           \<or> rect_height (frame p) \<noteq> rect_height (intrinsicFrame p)"
  shows "(snapLeft (model this) \<and> snapRight (model this) \<longrightarrow>
            map_option scaleX (calcInstanceChildScale (Some p) this)
              = Some ((rect_width (frame p)
                        - (rect_width (intrinsicFrame p) - rect_width (frame this)))
                      / rect_width (frame this))
            \<and> map_sum id newX (calcOffsetAfterScale (Some p) this newBounds oldBounds)
              = Inr (rect_x oldBounds))
       \<and> (snapTop (model this) \<and> snapBottom (model this) \<longrightarrow>
            map_option scaleY (calcInstanceChildScale (Some p) this)
              = Some ((rect_height (frame p)
                        - (rect_height (intrinsicFrame p) - rect_height (frame this)))
                      / rect_height (frame this))
            \<and> map_sum id newY (calcOffsetAfterScale (Some p) this newBounds oldBounds)
              = Inr (rect_y oldBounds))"
  using assms
  by (auto simp add: calcInstanceChildScale_def calcOffsetAfterScale_def isFrameScaled_def Let_def)

theorem C2_witness:
  "(rect_width (frame (sample_node (sample_layer ''p'' (Rect 0 0 100 100)) (Some (Rect 0 0 140 100)) ()))
      \<noteq> rect_width (intrinsicFrame (sample_node (sample_layer ''p'' (Rect 0 0 100 100)) (Some (Rect 0 0 140 100)) ())))
   \<and> snapLeft (model (sample_node ((sample_layer ''c'' (Rect 10 10 80 80))
         \<lparr>snapLeft := True, snapRight := True, snapTop := True, snapBottom := True\<rparr>) None ()))
   \<and> map_option scaleX (calcInstanceChildScale
         (Some (sample_node (sample_layer ''p'' (Rect 0 0 100 100)) (Some (Rect 0 0 140 100)) ()))
         (sample_node ((sample_layer ''c'' (Rect 10 10 80 80))
            \<lparr>snapLeft := True, snapRight := True, snapTop := True, snapBottom := True\<rparr>) None ()))
       = Some (3 / 2)
   \<and> map_sum id newX (calcOffsetAfterScale
         (Some (sample_node (sample_layer ''p'' (Rect 0 0 100 100)) (Some (Rect 0 0 140 100)) ()))
         (sample_node ((sample_layer ''c'' (Rect 10 10 80 80))
            \<lparr>snapLeft := True, snapRight := True, snapTop := True, snapBottom := True\<rparr>) None ())
         (Rect 0 0 120 80) (Rect 10 10 80 80))
       = Inr 10
   \<and> map_option scaleY (calcInstanceChildScale
         (Some (sample_node (sample_layer ''p'' (Rect 0 0 100 100)) (Some (Rect 0 0 140 100)) ()))
         (sample_node ((sample_layer ''c'' (Rect 10 10 80 80))
            \<lparr>snapLeft := True, snapRight := True, snapTop := True, snapBottom := True\<rparr>) None ()))
       = Some 1"
  using C2_both_edges_snapped_stretch
    [of "sample_node (sample_layer ''p'' (Rect 0 0 100 100)) (Some (Rect 0 0 140 100)) ()"
        "sample_node ((sample_layer ''c'' (Rect 10 10 80 80))
            \<lparr>snapLeft := True, snapRight := True, snapTop := True, snapBottom := True\<rparr>) None ()"
        "Rect 0 0 120 80" "Rect 10 10 80 80"]
  by (simp add: sample_defs frame_def intrinsicFrame_def)

text \<open>
  Claim C3. In a scaled parent, a child with only the trailing edge of an axis snapped and
  the axis not fixed gets the scale
  \<open>(master size * instance scale - trailing margin) / (master size - trailing margin)\<close>, with
  the trailing margin \<open>master size - child size - child origin\<close>, and
  \<^verbatim>\<open>calcOffsetAfterScale\<close> returns the origin
  \<open>instance size - new size - trailing margin\<close>.
\<close>

theorem C3_trailing_edge_snapped:
  assumes "isFrameScaled p"
  shows "(snapRight (model this) \<and> \<not> snapLeft (model this) \<and> \<not> fixedWidth (model this) \<longrightarrow>
            map_option scaleX (calcInstanceChildScale (Some p) this)
              = Some ((rect_width (intrinsicFrame p)
                         * (rect_width (frame p) / rect_width (intrinsicFrame p))
                       - (rect_width (intrinsicFrame p) - rect_width (frame this) - rect_x (frame this)))
                      / (rect_width (intrinsicFrame p)
                         - (rect_width (intrinsicFrame p) - rect_width (frame this) - rect_x (frame this))))
            \<and> map_sum id newX (calcOffsetAfterScale (Some p) this newBounds oldBounds)
              = Inr (rect_width (frame p) - rect_width newBounds
                     - (rect_width (intrinsicFrame p) - rect_width oldBounds - rect_x oldBounds)))
       \<and> (snapBottom (model this) \<and> \<not> snapTop (model this) \<and> \<not> fixedHeight (model this) \<longrightarrow>
            map_option scaleY (calcInstanceChildScale (Some p) this)
              = Some ((rect_height (intrinsicFrame p)
                         * (rect_height (frame p) / rect_height (intrinsicFrame p))
                       - (rect_height (intrinsicFrame p) - rect_height (frame this) - rect_y (frame this)))
                      / (rect_height (intrinsicFrame p)
                         - (rect_height (intrinsicFrame p) - rect_height (frame this) - rect_y (frame this))))
            \<and> map_sum id newY (calcOffsetAfterScale (Some p) this newBounds oldBounds)
              = Inr (rect_height (frame p) - rect_height newBounds
                     - (rect_height (intrinsicFrame p) - rect_height oldBounds - rect_y oldBounds)))"
  using assms
  by (auto simp add: calcInstanceChildScale_def calcOffsetAfterScale_def Let_def)

theorem C3_witness:
  "isFrameScaled (sample_node (sample_layer ''p'' (Rect 0 0 100 100)) (Some (Rect 0 0 160 130)) ())
   \<and> snapRight (model (sample_node ((sample_layer ''c'' (Rect 10 10 50 50))
         \<lparr>snapRight := True, snapBottom := True\<rparr>) None ()))
   \<and> calcInstanceChildScale
         (Some (sample_node (sample_layer ''p'' (Rect 0 0 100 100)) (Some (Rect 0 0 160 130)) ()))
         (sample_node ((sample_layer ''c'' (Rect 10 10 50 50))
            \<lparr>snapRight := True, snapBottom := True\<rparr>) None ())
       = Some \<lparr>scaleX = 2, scaleY = 3 / 2\<rparr>
   \<and> calcOffsetAfterScale
         (Some (sample_node (sample_layer ''p'' (Rect 0 0 100 100)) (Some (Rect 0 0 160 130)) ()))
         (sample_node ((sample_layer ''c'' (Rect 10 10 50 50))
            \<lparr>snapRight := True, snapBottom := True\<rparr>) None ())
         (Rect 0 0 100 75) (Rect 10 10 50 50)
       = Inr \<lparr>newX = 20, newY = 15\<rparr>"
  using C3_trailing_edge_snapped
    [of "sample_node (sample_layer ''p'' (Rect 0 0 100 100)) (Some (Rect 0 0 160 130)) ()"
        "sample_node ((sample_layer ''c'' (Rect 10 10 50 50))
            \<lparr>snapRight := True, snapBottom := True\<rparr>) None ()"
        "Rect 0 0 100 75" "Rect 10 10 50 50"]
  by (simp add: sample_defs layout_defs)

text \<open>
  Claim C4. With neither edge of an axis snapped, \<^verbatim>\<open>calcOffsetAfterScale\<close> keeps the
  proportional centre: the old centre divided by the master length, times the instance
  length, minus half the new size.
\<close>

theorem C4_neither_edge_snapped_center:
  "(\<not> snapLeft (model this) \<and> \<not> snapRight (model this) \<longrightarrow>
      map_sum id newX (calcOffsetAfterScale (Some p) this newBounds oldBounds)
        = Inr ((rect_x oldBounds + rect_width oldBounds / 2) / rect_width (intrinsicFrame p)
                 * rect_width (frame p)
               - rect_width newBounds / 2))
   \<and> (\<not> snapTop (model this) \<and> \<not> snapBottom (model this) \<longrightarrow>
      map_sum id newY (calcOffsetAfterScale (Some p) this newBounds oldBounds)
        = Inr ((rect_y oldBounds + rect_height oldBounds / 2) / rect_height (intrinsicFrame p)
                 * rect_height (frame p)
               - rect_height newBounds / 2))"
  by (auto simp add: calcOffsetAfterScale_def Let_def)

text \<open>
  The example of the claim: master width 100, child \<open>x = 20\<close>, width 20, instance width 200
  give the new centre 60, the new width 40 and the new origin 40.
\<close>

theorem C4_witness:
  "\<not> snapLeft (model (sample_node (sample_layer ''c'' (Rect 20 10 20 80)) None ()))
   \<and> calcOffsetAfterScale
         (Some (sample_node (sample_layer ''p'' (Rect 0 0 100 100)) (Some (Rect 0 0 200 100)) ()))
         (sample_node (sample_layer ''c'' (Rect 20 10 20 80)) None ())
         (Rect 0 0 40 80) (Rect 20 10 20 80)
       = Inr \<lparr>newX = 40, newY = 10\<rparr>
   \<and> (20 + 20 / 2) / 100 * 200 = (60 :: real)
   \<and> map_sum id scaledFrame (commonLayoutSelf
         (Some (sample_node (sample_layer ''p'' (Rect 0 0 100 100)) (Some (Rect 0 0 200 100)) ()))
         (sample_node (sample_layer ''c'' (Rect 20 10 20 80)) None ()))
       = Inr (Some (Rect 40 10 40 80))"
  using C4_neither_edge_snapped_center
    [of "sample_node (sample_layer ''c'' (Rect 20 10 20 80)) None ()"
        "sample_node (sample_layer ''p'' (Rect 0 0 100 100)) (Some (Rect 0 0 200 100)) ()"
        "Rect 0 0 40 80" "Rect 20 10 20 80"]
  by (simp add: sample_defs layout_defs)

text \<open>
  Claim C5. \<^verbatim>\<open>updateTransform\<close> sets the pivot to the centre of the current frame (the
  scaled frame if there is one, else the intrinsic one), the position to that centre in
  parent coordinates, the scale to \<open>\<plusminus>1\<close> per flip flag and the rotation to
  \<open>- scaleX * scaleY * degreeToRadian rotation\<close>, then calls \<^verbatim>\<open>updateLocalTransform\<close>;
  nothing else of the view changes.
\<close>

theorem C5_updateTransform:
  "transform (updateTransform updateLocalTransform degreeToRadian this)
     = updateLocalTransform
         \<lparr>pivot = \<lparr>pt_x = rect_width (frame this) / 2, pt_y = rect_height (frame this) / 2\<rparr>,
          position = \<lparr>pt_x = rect_x (frame this) + rect_width (frame this) / 2,
                       pt_y = rect_y (frame this) + rect_height (frame this) / 2\<rparr>,
          scale = \<lparr>pt_x = (if isFlippedHorizontal (model this) then - 1 else 1),
                    pt_y = (if isFlippedVertical (model this) then - 1 else 1)\<rparr>,
          rotation = - ((if isFlippedHorizontal (model this) then - 1 else 1)
                         * (if isFlippedVertical (model this) then - 1 else 1)
                         * degreeToRadian (model_rotation (model this))),
          localTransform = localTransform (transform this),
          worldTransform = worldTransform (transform this)\<rparr>
   \<and> frame this = (case scaledFrame this of Some f \<Rightarrow> f | None \<Rightarrow> intrinsicFrame this)
   \<and> (updateTransform updateLocalTransform degreeToRadian this)
        \<lparr>transform := transform this\<rparr> = this"
proof -
  have "(transform this)
            \<lparr>pivot := \<lparr>pt_x = rect_width (frame this) / 2, pt_y = rect_height (frame this) / 2\<rparr>,
             scale := \<lparr>pt_x = (if isFlippedHorizontal (model this) then - 1 else 1),
                       pt_y = (if isFlippedVertical (model this) then - 1 else 1)\<rparr>,
             rotation := - 1 * (if isFlippedHorizontal (model this) then - 1 else 1)
                            * (if isFlippedVertical (model this) then - 1 else 1)
                            * degreeToRadian (model_rotation (model this)),
             position := \<lparr>pt_x = rect_x (frame this) + rect_width (frame this) / 2,
                          pt_y = rect_y (frame this) + rect_height (frame this) / 2\<rparr>\<rparr>
        = \<lparr>pivot = \<lparr>pt_x = rect_width (frame this) / 2, pt_y = rect_height (frame this) / 2\<rparr>,
          position = \<lparr>pt_x = rect_x (frame this) + rect_width (frame this) / 2,
                       pt_y = rect_y (frame this) + rect_height (frame this) / 2\<rparr>,
          scale = \<lparr>pt_x = (if isFlippedHorizontal (model this) then - 1 else 1),
                    pt_y = (if isFlippedVertical (model this) then - 1 else 1)\<rparr>,
          rotation = - ((if isFlippedHorizontal (model this) then - 1 else 1)
                         * (if isFlippedVertical (model this) then - 1 else 1)
                         * degreeToRadian (model_rotation (model this))),
          localTransform = localTransform (transform this),
          worldTransform = worldTransform (transform this)\<rparr>"
    (is "?chain = ?literal")
    by (cases "transform this") simp
  moreover have "transform (updateTransform updateLocalTransform degreeToRadian this)
                   = updateLocalTransform ?chain"
    by (simp add: updateTransform_def Let_def)
  ultimately have "transform (updateTransform updateLocalTransform degreeToRadian this)
                   = updateLocalTransform ?literal"
    by (simp only:)
  moreover have "frame this = (case scaledFrame this of Some f \<Rightarrow> f | None \<Rightarrow> intrinsicFrame this)"
    by (simp add: frame_def intrinsicFrame_def split: option.splits)
  moreover have "(updateTransform updateLocalTransform degreeToRadian this)
        \<lparr>transform := transform this\<rparr> = this"
    by (simp add: updateTransform_def Let_def)
  ultimately show ?thesis by (intro conjI)
qed

theorem C5_witness:
  "transform (updateTransform (\<lambda>t. t) (\<lambda>d. d * pi / 180)
      (sample_node ((sample_layer ''c'' (Rect 10 20 80 40))
          \<lparr>isFlippedHorizontal := True, model_rotation := 90\<rparr>) (Some (Rect 10 20 120 40)) ()))
    = \<lparr>pivot = Point 60 20, position = Point 70 40, scale = Point (- 1) 1,
       rotation = pi / 2, localTransform = (), worldTransform = ()\<rparr>"
  using C5_updateTransform [of "\<lambda>t. t" "\<lambda>d. d * pi / 180"
      "sample_node ((sample_layer ''c'' (Rect 10 20 80 40))
          \<lparr>isFlippedHorizontal := True, model_rotation := 90\<rparr>) (Some (Rect 10 20 120 40)) ()"]
  by (simp add: sample_defs frame_def Point_def)

text \<open>
  Claim C6. When the loop of \<^verbatim>\<open>renderChildren\<close> reaches the rendering of the child at
  position \<open>j\<close>, the clip of the surface is the clip from before the loop narrowed by the
  mask that covers \<open>j\<close>, if there is one, and by nothing else; the child's \<^verbatim>\<open>render\<close> runs
  on exactly that surface; and when \<^verbatim>\<open>renderChildren\<close> returns, the clip and the save
  stack are what they were before it. With draw hooks that return, the loop reaches every
  child and \<^verbatim>\<open>renderChildren\<close> returns.
\<close>

theorem C6_mask_chain_scoping:
  assumes "j < length (children this)"
  shows "((\<forall>c n. hook c n = Returned) \<longrightarrow>
            reaches_child quickReject hook (children this) c j
            \<and> snd (snd (renderChildren quickReject hook this c)) = Returned)
       \<and> (reaches_child quickReject hook (children this) c j \<longrightarrow>
            (\<forall>i. mask_covers (children this) i j \<longrightarrow>
               clip (replay (calls_at_child quickReject hook (children this) c j) s)
                 = clip (replay c s) @ [objectId (model (self (children this ! i)))])
            \<and> (\<not> (\<exists>i. mask_covers (children this) i j) \<longrightarrow>
               clip (replay (calls_at_child quickReject hook (children this) c j) s)
                 = clip (replay c s))
            \<and> (\<exists>more. fst (snd (renderChildren quickReject hook this c))
                 = (if visible (self (children this ! j))
                    then fst (snd (render quickReject hook (self (children this ! j))
                               (calls_at_child quickReject hook (children this) c j)))
                    else calls_at_child quickReject hook (children this) c j) @ more))
       \<and> (snd (snd (renderChildren quickReject hook this c)) = Returned \<longrightarrow>
            stack (replay (fst (snd (renderChildren quickReject hook this c))) s) = stack (replay c s)
            \<and> clip (replay (fst (snd (renderChildren quickReject hook this c))) s)
                = clip (replay c s))"
proof (intro conjI allI impI)
  assume h: "\<forall>c n. hook c n = Returned"
  show "reaches_child quickReject hook (children this) c j"
    using loop_returns [OF h] by (simp add: reaches_child_def)
  show "snd (snd (renderChildren quickReject hook this c)) = Returned"
    by (rule renderChildren_returns [OF h])
next
  fix i
  assume r: "reaches_child quickReject hook (children this) c j"
    and "mask_covers (children this) i j"
  from covers_clip [OF this(2)] clip_at_child [OF assms r, of s]
  show "clip (replay (calls_at_child quickReject hook (children this) c j) s)
              = clip (replay c s) @ [objectId (model (self (children this ! i)))]"
    by simp
next
  assume r: "reaches_child quickReject hook (children this) c j"
    and nc: "\<not> (\<exists>i. mask_covers (children this) i j)"
  show "clip (replay (calls_at_child quickReject hook (children this) c j) s) = clip (replay c s)"
  proof (cases "isMask (self (children this ! j)) \<or> shouldBreakMaskChain (self (children this ! j))")
    case True
    with clip_at_child [OF assms r, of s] show ?thesis by auto
  next
    case False
    with no_cover_clip [OF assms nc] clip_at_child [OF assms r, of s]
    show ?thesis by simp
  qed
next
  assume r: "reaches_child quickReject hook (children this) c j"
  then have ret: "snd (snd (snd (renderChildren_loop quickReject hook (take j (children this)) False c)))
                    = Returned"
    by (simp add: reaches_child_def)
  have split: "children this = take j (children this) @ (children this ! j) # drop (Suc j) (children this)"
    using assms by (simp add: id_take_nth_drop)
  have "fst (snd (snd (renderChildren_loop quickReject hook (children this) False c)))
      = fst (snd (snd (renderChildren_loop quickReject hook
           ((children this ! j) # drop (Suc j) (children this))
           (fst (snd (renderChildren_loop quickReject hook (take j (children this)) False c)))
           (fst (snd (snd (renderChildren_loop quickReject hook (take j (children this)) False c)))))))"
    using loop_append [OF ret, of "(children this ! j) # drop (Suc j) (children this)"] split
    by simp
  moreover from loop_cons_calls [of quickReject hook "children this ! j" "drop (Suc j) (children this)"
      "fst (snd (renderChildren_loop quickReject hook (take j (children this)) False c))"
      "fst (snd (snd (renderChildren_loop quickReject hook (take j (children this)) False c)))"]
  obtain more where
    "fst (snd (snd (renderChildren_loop quickReject hook
           ((children this ! j) # drop (Suc j) (children this))
           (fst (snd (renderChildren_loop quickReject hook (take j (children this)) False c)))
           (fst (snd (snd (renderChildren_loop quickReject hook (take j (children this)) False c)))))))
     = (if visible (self (children this ! j))
               then fst (snd (render quickReject hook (self (children this ! j))
                          (calls_at_child quickReject hook (children this) c j)))
               else calls_at_child quickReject hook (children this) c j) @ more"
    unfolding calls_at_child_def Let_def by auto
  ultimately have "fst (snd (snd (renderChildren_loop quickReject hook (children this) False c)))
     = (if visible (self (children this ! j))
               then fst (snd (render quickReject hook (self (children this ! j))
                          (calls_at_child quickReject hook (children this) c j)))
               else calls_at_child quickReject hook (children this) c j) @ more"
    by simp
  then show "\<exists>more. fst (snd (renderChildren quickReject hook this c))
            = (if visible (self (children this ! j))
               then fst (snd (render quickReject hook (self (children this ! j))
                          (calls_at_child quickReject hook (children this) c j)))
               else calls_at_child quickReject hook (children this) c j) @ more"
    by (auto simp add: renderChildren_def Let_def)
next
  assume fin: "snd (snd (renderChildren quickReject hook this c)) = Returned"
  then have ret: "snd (snd (snd (renderChildren_loop quickReject hook (children this) False c)))
                    = Returned"
    by (cases "snd (snd (snd (renderChildren_loop quickReject hook (children this) False c)))")
       (simp_all add: renderChildren_def Let_def)
  have base: "mask_inv False None (replay c s) (clip (replay c s)) (stack (replay c s))"
    by (simp add: mask_inv_def)
  from loop_inv [OF ret, of None] obtain issued where
    c1: "fst (snd (snd (renderChildren_loop quickReject hook (children this) False c))) = c @ issued" and
    inv: "\<forall>s cl0 st0. mask_inv False None s cl0 st0
           \<longrightarrow> mask_inv (fst (snd (renderChildren_loop quickReject hook (children this) False c)))
                 (foldl chain_step None (children this)) (replay issued s) cl0 st0"
    by blast
  from inv base have
    i: "mask_inv (fst (snd (renderChildren_loop quickReject hook (children this) False c)))
          (foldl chain_step None (children this)) (replay issued (replay c s))
          (clip (replay c s)) (stack (replay c s))"
    by blast
  have "stack (replay (fst (snd (renderChildren quickReject hook this c))) s) = stack (replay c s)
      \<and> clip (replay (fst (snd (renderChildren quickReject hook this c))) s) = clip (replay c s)"
  proof (cases "foldl chain_step None (children this)")
    case None
    with i c1 ret show ?thesis
      by (simp add: renderChildren_def Let_def mask_inv_def replay_append)
  next
    case (Some a)
    with i c1 ret show ?thesis
      by (simp add: renderChildren_def Let_def mask_inv_def replay_append)
         (simp add: replay_def)
  qed
  then show "stack (replay (fst (snd (renderChildren quickReject hook this c))) s) = stack (replay c s)"
    and "clip (replay (fst (snd (renderChildren quickReject hook this c))) s) = clip (replay c s)"
    by simp_all
qed

text \<open>
  The example of the claim: among \<^verbatim>\<open>[mask1, plain1, plain2, mask2, plain3]\<close> the clip of
  \<^verbatim>\<open>mask1\<close> is in force for \<^verbatim>\<open>plain1\<close> and \<^verbatim>\<open>plain2\<close> only, that of \<^verbatim>\<open>mask2\<close> for
  \<^verbatim>\<open>plain3\<close> only, and nothing is left open.
\<close>

theorem C6_witness:
  "4 < length (children (View (sample_node (sample_layer ''group'' (Rect 0 0 10 10)) None ()) mask_example))
   \<and> reaches_child (\<lambda>c n. False) returning_hook mask_example [] 4
   \<and> mask_covers mask_example 3 4
   \<and> clip (replay (calls_at_child (\<lambda>c n. False) returning_hook mask_example [] 4) empty_surface)
       = [''mask2'']
   \<and> drawn (replay (fst (snd (renderChildren (\<lambda>c n. False) returning_hook
         (View (sample_node (sample_layer ''group'' (Rect 0 0 10 10)) None ()) mask_example) [])))
         empty_surface)
       = [(''mask1'', []), (''plain1'', [''mask1'']), (''plain2'', [''mask1'']),
          (''mask2'', []), (''plain3'', [''mask2''])]
   \<and> snd (snd (renderChildren (\<lambda>c n. False) returning_hook
         (View (sample_node (sample_layer ''group'' (Rect 0 0 10 10)) None ()) mask_example) []))
       = Returned
   \<and> stack (replay (fst (snd (renderChildren (\<lambda>c n. False) returning_hook
         (View (sample_node (sample_layer ''group'' (Rect 0 0 10 10)) None ()) mask_example) [])))
         empty_surface) = []
   \<and> clip (replay (fst (snd (renderChildren (\<lambda>c n. False) returning_hook
         (View (sample_node (sample_layer ''group'' (Rect 0 0 10 10)) None ()) mask_example) [])))
         empty_surface) = []"
proof -
  have len: "4 < length (children (View (sample_node (sample_layer ''group'' (Rect 0 0 10 10)) None ()) mask_example))"
    by (simp add: mask_example_def)
  have hk: "\<forall>c n. (returning_hook :: unit call list \<Rightarrow> unit node \<Rightarrow> completion) c n = Returned"
    by (simp add: returning_hook_def)
  have rng: "{3<..4::nat} = {4}" by auto
  have cov: "mask_covers mask_example 3 4"
    by (simp add: mask_covers_def rng)
       (simp add: mask_example_def sample_defs isMask_def shouldBreakMaskChain_def)
  have dr: "drawn (replay (fst (snd (renderChildren (\<lambda>c n. False) returning_hook
         (View (sample_node (sample_layer ''group'' (Rect 0 0 10 10)) None ()) mask_example) [])))
         empty_surface)
       = [(''mask1'', []), (''plain1'', [''mask1'']), (''plain2'', [''mask1'']),
          (''mask2'', []), (''plain3'', [''mask2''])]"
    by (simp add: renderChildren_def mask_example_def sample_defs render_defs returning_hook_def
          tryClip_def isMask_def shouldBreakMaskChain_def
          visible_def Let_def replay_def empty_surface_def)
  have id3: "objectId (model (self (mask_example ! 3))) = ''mask2''"
    by (simp add: mask_example_def sample_defs)
  from C6_mask_chain_scoping [OF len, of returning_hook "\<lambda>c n. False" "[]" empty_surface]
    hk cov len dr id3
  show ?thesis
    by (simp add: replay_def empty_surface_def)
qed

text \<open>
  Claim C7. \<^verbatim>\<open>findView\<close> computes the specified depth-first search: children last to
  first, only the interactive ones, the first hit wins, else the node itself; outside the
  node's own frame the answer is nothing, whatever the children are; every answer contains
  the point.
\<close>

theorem C7_findView_depth_first:
  "findView applyInverse this pt = spec_findView applyInverse pt this
   \<and> (\<not> containsPoint applyInverse (self this) pt \<longrightarrow> findView applyInverse this pt = None)
   \<and> (containsPoint applyInverse (self this) pt
        \<and> (\<forall>child \<in> set (children this).
              interactive (self child) \<longrightarrow> findView applyInverse child pt = None)
        \<longrightarrow> findView applyInverse this pt = Some this)
   \<and> (\<forall>w. findView applyInverse this pt = Some w \<longrightarrow> containsPoint applyInverse (self w) pt)"
proof (intro conjI impI allI)
  show r: "findView applyInverse this pt = spec_findView applyInverse pt this"
    by (rule findView_refines(1))
  show "findView applyInverse this pt = None" if "\<not> containsPoint applyInverse (self this) pt"
    using that by (simp add: findView.simps)
  show "findView applyInverse this pt = Some this"
    if h: "containsPoint applyInverse (self this) pt
        \<and> (\<forall>child \<in> set (children this).
              interactive (self child) \<longrightarrow> findView applyInverse child pt = None)"
  proof -
    have "List.find (\<lambda>r. r \<noteq> None)
                (map (spec_findView applyInverse pt)
                   (filter (\<lambda>child. interactive (self child)) (rev (children this)))) = None"
      using h by (auto simp add: find_None_iff findView_refines(1) [symmetric])
    with h show ?thesis
      by (simp add: r spec_findView_unfold [of _ _ this])
  qed
  show "containsPoint applyInverse (self w) pt" if "findView applyInverse this pt = Some w" for w
    using that by (rule findView_contains(1))
qed

text \<open>
  Overlapping siblings: in the overlap the sibling drawn last wins; outside it the one that
  contains the point; outside both the root; outside the root nothing.
\<close>

theorem C7_witness:
  "findView translate_inverse overlap_example (Point 50 50)
     = Some (View (sample_node (sample_layer ''b'' (Rect 40 40 60 60)) None (Point 40 40)) [])
   \<and> findView translate_inverse overlap_example (Point 30 30)
     = Some (View (sample_node (sample_layer ''a'' (Rect 0 0 60 60)) None (Point 0 0)) [])
   \<and> findView translate_inverse overlap_example (Point 80 10) = Some overlap_example
   \<and> findView translate_inverse overlap_example (Point 120 50) = None"
  using C7_findView_depth_first [of translate_inverse overlap_example "Point 50 50"]
    C7_findView_depth_first [of translate_inverse overlap_example "Point 30 30"]
    C7_findView_depth_first [of translate_inverse overlap_example "Point 80 10"]
    C7_findView_depth_first [of translate_inverse overlap_example "Point 120 50"]
  by (simp add: overlap_example_def sample_defs Point_def translate_inverse_def
        containsPoint_def interactive_def visible_def frame_def Let_def)

text \<open>
  Claim C8. Without a parent, or with a parent whose frame has its intrinsic size,
  \<^verbatim>\<open>calcInstanceChildScale\<close> returns nothing and \<^verbatim>\<open>commonLayoutSelf\<close> succeeds with
  \<^verbatim>\<open>scaledFrame\<close> absent, so that the frame is the intrinsic one.
\<close>

theorem C8_no_override_without_scaled_parent:
  assumes "case parent of
             None \<Rightarrow> True
           | Some p \<Rightarrow> rect_width (frame p) = rect_width (intrinsicFrame p)
                       \<and> rect_height (frame p) = rect_height (intrinsicFrame p)"
  shows "calcInstanceChildScale parent this = None
         \<and> commonLayoutSelf parent this = Inr (this\<lparr>scaledFrame := None\<rparr>)
         \<and> frame (this\<lparr>scaledFrame := None\<rparr>) = intrinsicFrame this"
  using assms
  by (simp add: calcInstanceChildScale_def commonLayoutSelf_def isFrameScaled_def
        frame_def intrinsicFrame_def split: option.splits)

theorem C8_witness:
  "calcInstanceChildScale (Some (sample_node (sample_layer ''p'' (Rect 0 0 100 100)) None ()))
     (sample_node (sample_layer ''c'' (Rect 10 10 80 80)) (Some (Rect 10 10 120 80)) ()) = None
   \<and> commonLayoutSelf (Some (sample_node (sample_layer ''p'' (Rect 0 0 100 100)) None ()))
       (sample_node (sample_layer ''c'' (Rect 10 10 80 80)) (Some (Rect 10 10 120 80)) ())
     = Inr (sample_node (sample_layer ''c'' (Rect 10 10 80 80)) None ())"
  using C8_no_override_without_scaled_parent
    [of "Some (sample_node (sample_layer ''p'' (Rect 0 0 100 100)) None ())"
        "sample_node (sample_layer ''c'' (Rect 10 10 80 80)) (Some (Rect 10 10 120 80)) ()"]
  by (simp add: sample_defs frame_def intrinsicFrame_def)

text \<open>
  Claim C9, as amended. On every path of \<^verbatim>\<open>render\<close> that returns, quick-rejected or not,
  with a layer paint or without, \<^verbatim>\<open>render\<close> only adds calls to the surface, as many
  \<^verbatim>\<open>save\<close>/\<^verbatim>\<open>saveLayer\<close> as \<^verbatim>\<open>restore\<close>; the scopes are released in the reverse
  order of their acquisition, and the save stack and the clip end as they began.
  \<^verbatim>\<open>render\<close> returns whenever the draw hook does, and always for a quick-rejected node.
  When the draw hook throws, \<^verbatim>\<open>render\<close> ends without a \<^verbatim>\<open>restore\<close> and the scopes it
  opened stay on the stack.
\<close>

theorem C9_render_scopes_balanced:
  "\<exists>issued. fst (snd (render quickReject hook this c)) = c @ issued
     \<and> ((\<forall>c n. hook c n = Returned) \<longrightarrow> snd (snd (render quickReject hook this c)) = Returned)
     \<and> (canQuickReject this \<and> quickReject (c @ [Save, Concat (localTransform (transform this))]) this
          \<longrightarrow> snd (snd (render quickReject hook this c)) = Returned)
     \<and> (snd (snd (render quickReject hook this c)) = Returned \<longrightarrow>
           opens issued = closes issued
           \<and> stack (replay issued s) = stack s
           \<and> clip (replay issued s) = clip s
           \<and> released (replay issued s) = released s @ rev (acquired issued))
     \<and> (snd (snd (render quickReject hook this c)) = Threw \<longrightarrow>
           closes issued = 0 \<and> 0 < opens issued
           \<and> stack (replay issued s) = map (\<lambda>k. (k, clip s)) (rev (acquired issued)) @ stack s)"
proof -
  from render_issued [of quickReject hook this c] obtain issued where
    c: "fst (snd (render quickReject hook this c)) = c @ issued" and
    r: "snd (snd (render quickReject hook this c)) = Returned \<longrightarrow>
           issued = [Save, Concat (localTransform (transform this)), Restore]
           \<or> issued = [Save, Concat (localTransform (transform this)),
                        DrawSelf (objectId (model this)), Restore]
           \<or> (\<exists>p. issued = [Save, Concat (localTransform (transform this)), SaveLayer p,
                             DrawSelf (objectId (model this)), Restore, Restore])" and
    t: "snd (snd (render quickReject hook this c)) = Threw \<longrightarrow>
           issued = [Save, Concat (localTransform (transform this)),
                     DrawSelf (objectId (model this))]
           \<or> (\<exists>p. issued = [Save, Concat (localTransform (transform this)), SaveLayer p,
                             DrawSelf (objectId (model this))])"
    by blast
  have 1: "(\<forall>c n. hook c n = Returned) \<longrightarrow> snd (snd (render quickReject hook this c)) = Returned"
    using render_returns [of hook quickReject this c] by blast
  have 2: "canQuickReject this \<and> quickReject (c @ [Save, Concat (localTransform (transform this))]) this
          \<longrightarrow> snd (snd (render quickReject hook this c)) = Returned"
    by (simp add: render_def applyTransform_def Let_def)
  have 3: "snd (snd (render quickReject hook this c)) = Returned \<longrightarrow>
           opens issued = closes issued
           \<and> stack (replay issued s) = stack s
           \<and> clip (replay issued s) = clip s
           \<and> released (replay issued s) = released s @ rev (acquired issued)"
    using r by (auto simp add: opens_def closes_def replay_def acquired_def)
  have 4: "snd (snd (render quickReject hook this c)) = Threw \<longrightarrow>
           closes issued = 0 \<and> 0 < opens issued
           \<and> stack (replay issued s) = map (\<lambda>k. (k, clip s)) (rev (acquired issued)) @ stack s"
    using t by (auto simp add: opens_def closes_def replay_def acquired_def)
  from c 1 2 3 4 show ?thesis by blast
qed

theorem C9_witness:
  "render (\<lambda>c n. False) returning_hook translucent_node []
     = (translucent_node\<lparr>layerPaint := Paint (emptyPaint\<lparr>alphaf := Some (1 / 2)\<rparr>)\<rparr>,
        [Save, Concat (), SaveLayer (emptyPaint\<lparr>alphaf := Some (1 / 2)\<rparr>), DrawSelf ''c'',
         Restore, Restore],
        Returned)
   \<and> render (\<lambda>c n. True) throwing_hook translucent_node []
     = (translucent_node, [Save, Concat (), Restore], Returned)
   \<and> opens [Save, Concat (), SaveLayer (emptyPaint\<lparr>alphaf := Some (1 / 2)\<rparr>), DrawSelf ''c'',
             Restore, Restore :: unit call] = 2
   \<and> closes [Save, Concat (), SaveLayer (emptyPaint\<lparr>alphaf := Some (1 / 2)\<rparr>), DrawSelf ''c'',
             Restore, Restore :: unit call] = 2
   \<and> released (replay [Save, Concat (), SaveLayer (emptyPaint\<lparr>alphaf := Some (1 / 2)\<rparr>),
                         DrawSelf ''c'', Restore, Restore] empty_surface)
       = [LayerScope (emptyPaint\<lparr>alphaf := Some (1 / 2)\<rparr>), SaveScope]
   \<and> stack (replay [Save, Concat (), SaveLayer (emptyPaint\<lparr>alphaf := Some (1 / 2)\<rparr>),
                      DrawSelf ''c'', Restore, Restore] empty_surface) = []"
  using C9_render_scopes_balanced [of "\<lambda>c n. False" returning_hook translucent_node "[]" empty_surface]
    C9_render_scopes_balanced [of "\<lambda>c n. True" throwing_hook translucent_node "[]" empty_surface]
  by (simp add: translucent_node_def returning_hook_def throwing_hook_def sample_defs render_defs
        Let_def replay_def empty_surface_def opens_def closes_def)

text \<open>
  The claim as first stated fails where the draw hook throws: a node with a layer paint
  has then received \<^verbatim>\<open>save\<close> and \<^verbatim>\<open>saveLayer\<close> and no \<^verbatim>\<open>restore\<close>, and two scopes are
  left on a stack that was empty.
\<close>

theorem C9_counterexample:
  "render (\<lambda>c n. False) throwing_hook translucent_node []
     = (translucent_node\<lparr>layerPaint := Paint (emptyPaint\<lparr>alphaf := Some (1 / 2)\<rparr>)\<rparr>,
        [Save, Concat (), SaveLayer (emptyPaint\<lparr>alphaf := Some (1 / 2)\<rparr>), DrawSelf ''c''],
        Threw)
   \<and> opens [Save, Concat (), SaveLayer (emptyPaint\<lparr>alphaf := Some (1 / 2)\<rparr>),
             DrawSelf ''c'' :: unit call] = 2
   \<and> closes [Save, Concat (), SaveLayer (emptyPaint\<lparr>alphaf := Some (1 / 2)\<rparr>),
              DrawSelf ''c'' :: unit call] = 0
   \<and> stack (replay [Save, Concat (), SaveLayer (emptyPaint\<lparr>alphaf := Some (1 / 2)\<rparr>),
                      DrawSelf ''c'' :: unit call] empty_surface)
       = [(LayerScope (emptyPaint\<lparr>alphaf := Some (1 / 2)\<rparr>), []), (SaveScope, [])]
   \<and> stack (empty_surface) = []"
  by (simp add: translucent_node_def throwing_hook_def sample_defs render_defs
        Let_def replay_def empty_surface_def opens_def closes_def)

text \<open>
  Claim C10. \<^verbatim>\<open>containsPoint\<close> is strict: a point whose local image lies on an edge of
  the frame is not contained, and no view returned by \<^verbatim>\<open>findView\<close> has the point on
  one of its edges.
\<close>

theorem C10_containsPoint_strict:
  "(pt_x (applyInverse (worldTransform (transform this)) pt) = 0
      \<or> pt_y (applyInverse (worldTransform (transform this)) pt) = 0
      \<or> pt_x (applyInverse (worldTransform (transform this)) pt) = rect_width (frame this)
      \<or> pt_y (applyInverse (worldTransform (transform this)) pt) = rect_height (frame this)
      \<longrightarrow> \<not> containsPoint applyInverse this pt)
   \<and> (\<forall>w. findView applyInverse v pt = Some w \<longrightarrow>
         pt_x (applyInverse (worldTransform (transform (self w))) pt) \<noteq> 0
         \<and> pt_y (applyInverse (worldTransform (transform (self w))) pt) \<noteq> 0
         \<and> pt_x (applyInverse (worldTransform (transform (self w))) pt) \<noteq> rect_width (frame (self w))
         \<and> pt_y (applyInverse (worldTransform (transform (self w))) pt) \<noteq> rect_height (frame (self w)))"
proof (intro conjI allI impI)
  assume "pt_x (applyInverse (worldTransform (transform this)) pt) = 0
      \<or> pt_y (applyInverse (worldTransform (transform this)) pt) = 0
      \<or> pt_x (applyInverse (worldTransform (transform this)) pt) = rect_width (frame this)
      \<or> pt_y (applyInverse (worldTransform (transform this)) pt) = rect_height (frame this)"
  then show "\<not> containsPoint applyInverse this pt"
    by (auto simp add: containsPoint_def Let_def)
next
  fix w assume "findView applyInverse v pt = Some w"
  then have c: "containsPoint applyInverse (self w) pt" by (rule findView_contains(1))
  from c show "pt_x (applyInverse (worldTransform (transform (self w))) pt) \<noteq> 0"
    by (auto simp add: containsPoint_def Let_def)
  from c show "pt_y (applyInverse (worldTransform (transform (self w))) pt) \<noteq> 0"
    by (auto simp add: containsPoint_def Let_def)
  from c show "pt_x (applyInverse (worldTransform (transform (self w))) pt) \<noteq> rect_width (frame (self w))"
    by (auto simp add: containsPoint_def Let_def)
  from c show "pt_y (applyInverse (worldTransform (transform (self w))) pt) \<noteq> rect_height (frame (self w))"
    by (auto simp add: containsPoint_def Let_def)
qed

theorem C10_witness:
  "pt_x (translate_inverse
           (worldTransform (transform
              (sample_node (sample_layer ''b'' (Rect 40 40 60 60)) None (Point 40 40))))
           (Point 40 50)) = 0
   \<and> \<not> containsPoint translate_inverse
         (sample_node (sample_layer ''b'' (Rect 40 40 60 60)) None (Point 40 40)) (Point 40 50)
   \<and> findView translate_inverse overlap_example (Point 40 50)
       = Some (View (sample_node (sample_layer ''a'' (Rect 0 0 60 60)) None (Point 0 0)) [])
   \<and> findView translate_inverse overlap_example (Point 0 50) = None"
  using C10_containsPoint_strict [where applyInverse = translate_inverse
      and this = "sample_node (sample_layer ''b'' (Rect 40 40 60 60)) None (Point 40 40)"
      and pt = "Point 40 50" and v = overlap_example]
  by (simp add: overlap_example_def sample_defs Point_def translate_inverse_def
        containsPoint_def interactive_def visible_def frame_def Let_def
        findView.simps findView_loop.simps)

end
